theory Spec2Isabelle
  imports Main "HOL-Library.Word"
begin

unbundle bit_operations_syntax

section \<open>The ENC28J60 driver (enc28j60.c, enc28j60.h)\<close>

text \<open>
  A shallow embedding of the driver. The C functions whose names start with an underscore
  (\<^verbatim>\<open>_ENC28J60_readReg\<close>, ...) keep their names without it. The driver is compiled
  without \<^verbatim>\<open>ENC28J60_DEBUG\<close>, so \<^verbatim>\<open>ENC28J60_DEBUG_OUT\<close> expands to nothing and the
  \<^verbatim>\<open>#ifdef ENC28J60_DEBUG\<close> block of \<^verbatim>\<open>ENC28J60_send\<close> is absent.
\<close>

type_synonym u8 = "8 word"
type_synonym u16 = "16 word"
type_synonym u32 = "32 word"

subsection \<open>The hardware abstraction layer the driver calls\<close>

text \<open>
  The STM32 HAL, \<^verbatim>\<open>sleep_ms\<close> and the chip are outside the driver. They are modelled
  as an explicit world: everything the driver outputs is appended to \<open>trace\<close>, in order;
  every byte the chip returns on the serial bus is read from the stream \<open>miso\<close> (the
  \<open>n\<close>-th exchange since power-up returns \<open>miso n\<close>), and the \<open>n\<close>-th call of
  \<^verbatim>\<open>HAL_GetTick\<close> returns \<open>clock n\<close>. The two streams are arbitrary, so a theorem
  that holds for all of them holds for every behaviour of chip and clock.
\<close>

datatype GPIO_PinState = GPIO_PIN_RESET | GPIO_PIN_SET

datatype HAL_StatusTypeDef = HAL_OK | HAL_ERROR | HAL_BUSY | HAL_TIMEOUT

datatype hal_event =
    GPIO_WritePin nat u16 GPIO_PinState
  | SPI_Transmit nat u8
  | Sleep_ms nat

record hal =
  miso :: "nat \<Rightarrow> u8"
  spi_count :: nat
  clock :: "nat \<Rightarrow> u32"
  tick_count :: nat
  trace :: "hal_event list"

definition HAL_GPIO_WritePin :: "nat \<Rightarrow> u16 \<Rightarrow> GPIO_PinState \<Rightarrow> hal \<Rightarrow> hal" where
  "HAL_GPIO_WritePin port pin st h = h\<lparr>trace := trace h @ [GPIO_WritePin port pin st]\<rparr>"

text \<open>
  \<^verbatim>\<open>HAL_SPI_TransmitReceive(spi, tx, rx, 1, ENC28J60_SPI_TIMEOUT)\<close>: one byte out, one byte
  in. The driver ignores the returned status, and so does the model.
\<close>

definition HAL_SPI_TransmitReceive :: "nat \<Rightarrow> u8 \<Rightarrow> hal \<Rightarrow> u8 \<times> hal" where
  "HAL_SPI_TransmitReceive port tx h =
     (miso h (spi_count h),
      h\<lparr>spi_count := Suc (spi_count h), trace := trace h @ [SPI_Transmit port tx]\<rparr>)"

definition HAL_GetTick :: "hal \<Rightarrow> u32 \<times> hal" where
  "HAL_GetTick h = (clock h (tick_count h), h\<lparr>tick_count := Suc (tick_count h)\<rparr>)"

definition sleep_ms :: "nat \<Rightarrow> hal \<Rightarrow> hal" where
  "sleep_ms n h = h\<lparr>trace := trace h @ [Sleep_ms n]\<rparr>"

subsection \<open>The device handle and the register map\<close>

text \<open>
  \<^verbatim>\<open>typedef struct { ... } ENC28J60\<close>. Pointers to HAL objects are addresses (\<open>nat\<close>).
  \<open>macAddress\<close> is the array of \<^verbatim>\<open>MAC_ADDRESS_LENGTH\<close> = 6 bytes. The two counters are
  C \<^verbatim>\<open>int\<close>s, 32 bits on the target: they are 32-bit words read as signed values
  (\<open>sint\<close>) where the code compares them; incrementing \<^verbatim>\<open>INT_MAX\<close>, undefined in C,
  wraps in the model. The type of the watchdog timer comes from \<^verbatim>\<open>utils/timer.h\<close>,
  which is not part of the driver: it is the type parameter \<open>'t\<close>.
\<close>

record 't ENC28J60 =
  spi :: nat
  macAddress :: "u8 list"
  csPort :: nat
  csPin :: u16
  resetPort :: nat
  resetPin :: u16
  bank :: u8
  receivedPackets :: u32
  sentPackets :: u32
  watchDogTimer :: 't

definition EIE :: u8 where "EIE = 0x1b"
definition EIR :: u8 where "EIR = 0x1c"
definition ESTAT :: u8 where "ESTAT = 0x1d"
definition ECON2 :: u8 where "ECON2 = 0x1e"
definition ECON1 :: u8 where "ECON1 = 0x1f"

definition ESTAT_CLKRDY :: u8 where "ESTAT_CLKRDY = 0x01"
definition ECON1_RXEN :: u8 where "ECON1_RXEN = 0x04"
definition ECON1_TXRTS :: u8 where "ECON1_TXRTS = 0x08"
definition ECON2_AUTOINC :: u8 where "ECON2_AUTOINC = 0x80"
definition ECON2_PKTDEC :: u8 where "ECON2_PKTDEC = 0x40"
definition EIR_TXIF :: u8 where "EIR_TXIF = 0x08"

definition ERXTX_BANK :: u8 where "ERXTX_BANK = 0x00"
definition ERDPTL :: u8 where "ERDPTL = 0x00"
definition EWRPTL :: u8 where "EWRPTL = 0x02"
definition ETXSTL :: u8 where "ETXSTL = 0x04"
definition ETXNDL :: u8 where "ETXNDL = 0x06"
definition ERXSTL :: u8 where "ERXSTL = 0x08"
definition ERXNDL :: u8 where "ERXNDL = 0x0a"
definition ERXRDPTL :: u8 where "ERXRDPTL = 0x0c"
definition ERXRDPTH :: u8 where "ERXRDPTH = 0x0d"

definition RX_BUF_START :: int where "RX_BUF_START = 0x0000"
definition RX_BUF_END :: int where "RX_BUF_END = 0x0fff"
definition TX_BUF_START :: int where "TX_BUF_START = 0x1200"

definition MACONX_BANK :: u8 where "MACONX_BANK = 0x02"
definition MACON1 :: u8 where "MACON1 = 0x00"
definition MACON3 :: u8 where "MACON3 = 0x02"
definition MABBIPG :: u8 where "MABBIPG = 0x04"
definition MAIPGL :: u8 where "MAIPGL = 0x06"
definition MAMXFLL :: u8 where "MAMXFLL = 0x0a"

definition MACON1_TXPAUS :: u8 where "MACON1_TXPAUS = 0x08"
definition MACON1_RXPAUS :: u8 where "MACON1_RXPAUS = 0x04"
definition MACON1_MARXEN :: u8 where "MACON1_MARXEN = 0x01"
definition MACON3_PADCFG_FULL :: u8 where "MACON3_PADCFG_FULL = 0xe0"
definition MACON3_TXCRCEN :: u8 where "MACON3_TXCRCEN = 0x10"
definition MACON3_FRMLNEN :: u8 where "MACON3_FRMLNEN = 0x02"
definition MACON3_FULDPX :: u8 where "MACON3_FULDPX = 0x01"
definition MAX_MAC_LENGTH :: int where "MAX_MAC_LENGTH = 1518"

definition MAADRX_BANK :: u8 where "MAADRX_BANK = 0x03"
definition MAADR1 :: u8 where "MAADR1 = 0x04"
definition MAADR2 :: u8 where "MAADR2 = 0x05"
definition MAADR3 :: u8 where "MAADR3 = 0x02"
definition MAADR4 :: u8 where "MAADR4 = 0x03"
definition MAADR5 :: u8 where "MAADR5 = 0x00"
definition MAADR6 :: u8 where "MAADR6 = 0x01"
definition MISTAT :: u8 where "MISTAT = 0x0a"
definition EREVID :: u8 where "EREVID = 0x12"

definition EPKTCNT_BANK :: u8 where "EPKTCNT_BANK = 0x01"
definition ERXFCON :: u8 where "ERXFCON = 0x18"
definition EPKTCNT :: u8 where "EPKTCNT = 0x19"
definition ERXFCON_UCEN :: u8 where "ERXFCON_UCEN = 0x80"
definition ERXFCON_CRCEN :: u8 where "ERXFCON_CRCEN = 0x20"
definition ERXFCON_BCEN :: u8 where "ERXFCON_BCEN = 0x01"

subsection \<open>Pins and the serial bus\<close>

definition ENC28J60_spiAssert :: "'t ENC28J60 \<Rightarrow> hal \<Rightarrow> hal" where
  "ENC28J60_spiAssert e h = HAL_GPIO_WritePin (csPort e) (csPin e) GPIO_PIN_RESET h"

definition ENC28J60_spiDeassert :: "'t ENC28J60 \<Rightarrow> hal \<Rightarrow> hal" where
  "ENC28J60_spiDeassert e h = HAL_GPIO_WritePin (csPort e) (csPin e) GPIO_PIN_SET h"

definition ENC28J60_spiTx :: "'t ENC28J60 \<Rightarrow> u8 \<Rightarrow> hal \<Rightarrow> u8 \<times> hal" where
  "ENC28J60_spiTx e v h = HAL_SPI_TransmitReceive (spi e) v h"

definition ENC28J60_resetAssert :: "'t ENC28J60 \<Rightarrow> hal \<Rightarrow> hal" where
  "ENC28J60_resetAssert e h = HAL_GPIO_WritePin (resetPort e) (resetPin e) GPIO_PIN_RESET h"

definition ENC28J60_resetDeassert :: "'t ENC28J60 \<Rightarrow> hal \<Rightarrow> hal" where
  "ENC28J60_resetDeassert e h = HAL_GPIO_WritePin (resetPort e) (resetPin e) GPIO_PIN_SET h"

subsection \<open>Control registers\<close>

text \<open>
  \<^verbatim>\<open>_ENC28J60_isMacMiiReg\<close>: the \<^verbatim>\<open>switch\<close> on the recorded bank. The C function
  returns the truth value as a \<^verbatim>\<open>uint8_t\<close> and its callers only test it.
\<close>

definition ENC28J60_isMacMiiReg :: "'t ENC28J60 \<Rightarrow> u8 \<Rightarrow> bool" where
  "ENC28J60_isMacMiiReg e reg =
     (if bank e = MACONX_BANK then reg < EIE
      else if bank e = MAADRX_BANK then reg \<le> MAADR2 \<or> reg = MISTAT
      else False)"

definition ENC28J60_readReg :: "'t ENC28J60 \<Rightarrow> u8 \<Rightarrow> hal \<Rightarrow> u8 \<times> hal" where
  "ENC28J60_readReg e reg h =
     (let h1 = ENC28J60_spiAssert e h;
          h2 = snd (ENC28J60_spiTx e (0x00 OR (reg AND 0x1f)) h1);
          h3 = (if ENC28J60_isMacMiiReg e reg then snd (ENC28J60_spiTx e 0x00 h2) else h2);
          (r, h4) = ENC28J60_spiTx e 0x00 h3;
          h5 = ENC28J60_spiDeassert e h4
      in (r, h5))"

definition ENC28J60_writeReg :: "'t ENC28J60 \<Rightarrow> u8 \<Rightarrow> u8 \<Rightarrow> hal \<Rightarrow> hal" where
  "ENC28J60_writeReg e reg data h =
     (let h1 = ENC28J60_spiAssert e h;
          h2 = snd (ENC28J60_spiTx e (0x40 OR (reg AND 0x1f)) h1);
          h3 = snd (ENC28J60_spiTx e data h2)
      in ENC28J60_spiDeassert e h3)"

definition ENC28J60_writeReg16 :: "'t ENC28J60 \<Rightarrow> u8 \<Rightarrow> u16 \<Rightarrow> hal \<Rightarrow> hal" where
  "ENC28J60_writeReg16 e reg data h =
     (let h1 = ENC28J60_writeReg e reg (ucast (data AND 0xff)) h
      in ENC28J60_writeReg e (reg + 1) (ucast (drop_bit 8 data AND 0xff)) h1)"

definition ENC28J60_setRegBitField :: "'t ENC28J60 \<Rightarrow> u8 \<Rightarrow> u8 \<Rightarrow> hal \<Rightarrow> hal" where
  "ENC28J60_setRegBitField e reg msk h =
     (if ENC28J60_isMacMiiReg e reg then
        (let (r, h1) = ENC28J60_readReg e reg h in ENC28J60_writeReg e reg (r OR msk) h1)
      else
        (let h1 = ENC28J60_spiAssert e h;
             h2 = snd (ENC28J60_spiTx e (0x80 OR (reg AND 0x1f)) h1);
             h3 = snd (ENC28J60_spiTx e msk h2)
         in ENC28J60_spiDeassert e h3))"

definition ENC28J60_clearRegBitField :: "'t ENC28J60 \<Rightarrow> u8 \<Rightarrow> u8 \<Rightarrow> hal \<Rightarrow> hal" where
  "ENC28J60_clearRegBitField e reg msk h =
     (if ENC28J60_isMacMiiReg e reg then
        (let (r, h1) = ENC28J60_readReg e reg h in ENC28J60_writeReg e reg (r AND NOT msk) h1)
      else
        (let h1 = ENC28J60_spiAssert e h;
             h2 = snd (ENC28J60_spiTx e (0xa0 OR (reg AND 0x1f)) h1);
             h3 = snd (ENC28J60_spiTx e msk h2)
         in ENC28J60_spiDeassert e h3))"

definition ENC28J60_setRegBank :: "'t ENC28J60 \<Rightarrow> u8 \<Rightarrow> hal \<Rightarrow> 't ENC28J60 \<times> hal" where
  "ENC28J60_setRegBank e new_bank h =
     (let (r, h1) = ENC28J60_readReg e ECON1 h;
          h2 = ENC28J60_writeReg e ECON1 ((r AND 0xfc) OR (new_bank AND 0x03)) h1
      in (e\<lparr>bank := new_bank\<rparr>, h2))"

subsection \<open>Buffer memory\<close>

text \<open>
  The \<^verbatim>\<open>for\<close> loops of \<^verbatim>\<open>_ENC28J60_writeData\<close> and \<^verbatim>\<open>_ENC28J60_readData\<close>, with the
  C \<^verbatim>\<open>int\<close> index \<open>i\<close>. The caller's arrays are lists; the driver's callers pass arrays
  of at least \<open>datalen\<close> (\<open>len\<close>) bytes, and the theorems say so where it matters.
\<close>

function writeData_loop :: "'t ENC28J60 \<Rightarrow> u8 list \<Rightarrow> int \<Rightarrow> int \<Rightarrow> hal \<Rightarrow> hal" where
  "writeData_loop e data datalen i h =
     (if i < datalen
      then writeData_loop e data datalen (i + 1) (snd (ENC28J60_spiTx e (data ! nat i) h))
      else h)"
  by pat_completeness auto
termination
  by (relation "measure (\<lambda>(e, data, datalen, i, h). nat (datalen - i))") auto

definition ENC28J60_writeData :: "'t ENC28J60 \<Rightarrow> u8 list \<Rightarrow> int \<Rightarrow> hal \<Rightarrow> hal" where
  "ENC28J60_writeData e data datalen h =
     (let h1 = ENC28J60_spiAssert e h;
          h2 = snd (ENC28J60_spiTx e 0x7a h1);
          h3 = writeData_loop e data datalen 0 h2
      in ENC28J60_spiDeassert e h3)"

definition ENC28J60_writeDataByte :: "'t ENC28J60 \<Rightarrow> u8 \<Rightarrow> hal \<Rightarrow> hal" where
  "ENC28J60_writeDataByte e byte h = ENC28J60_writeData e [byte] 1 h"

function readData_loop ::
  "'t ENC28J60 \<Rightarrow> u8 list \<Rightarrow> int \<Rightarrow> int \<Rightarrow> hal \<Rightarrow> int \<times> u8 list \<times> hal" where
  "readData_loop e buf len i h =
     (if i < len
      then (let (r, h1) = ENC28J60_spiTx e 0x00 h
            in readData_loop e (buf[nat i := r]) len (i + 1) h1)
      else (i, buf, h))"
  by pat_completeness auto
termination
  by (relation "measure (\<lambda>(e, buf, len, i, h). nat (len - i))") auto

definition ENC28J60_readData ::
  "'t ENC28J60 \<Rightarrow> u8 list \<Rightarrow> int \<Rightarrow> hal \<Rightarrow> int \<times> u8 list \<times> hal" where
  "ENC28J60_readData e buf len h =
     (let h1 = ENC28J60_spiAssert e h;
          h2 = snd (ENC28J60_spiTx e 0x3a h1);
          (i, buf', h3) = readData_loop e buf len 0 h2;
          h4 = ENC28J60_spiDeassert e h3
      in (i, buf', h4))"

text \<open>
  \<^verbatim>\<open>_ENC28J60_readDataByte\<close> reads into the one-byte local \<open>r\<close>, which the loop always
  overwrites; its initial content is written as 0.
\<close>

definition ENC28J60_readDataByte :: "'t ENC28J60 \<Rightarrow> hal \<Rightarrow> u8 \<times> hal" where
  "ENC28J60_readDataByte e h =
     (let (i, buf', h1) = ENC28J60_readData e [0] 1 h in (buf' ! 0, h1))"

definition ENC28J60_softReset :: "'t ENC28J60 \<Rightarrow> hal \<Rightarrow> 't ENC28J60 \<times> hal" where
  "ENC28J60_softReset e h =
     (let h1 = ENC28J60_spiAssert e h;
          h2 = snd (ENC28J60_spiTx e 0xff h1);
          h3 = ENC28J60_spiDeassert e h2
      in (e\<lparr>bank := ERXTX_BANK\<rparr>, h3))"

subsection \<open>Chip control\<close>

definition ENC28J60_readRev :: "'t ENC28J60 \<Rightarrow> hal \<Rightarrow> u8 \<times> 't ENC28J60 \<times> hal" where
  "ENC28J60_readRev e h =
     (let (e1, h1) = ENC28J60_setRegBank e MAADRX_BANK h;
          (rev, h2) = ENC28J60_readReg e1 EREVID h1
      in (if rev = 2 then 1 else if rev = 6 then 7 else rev, e1, h2))"

text \<open>
  The polling loop of \<^verbatim>\<open>_ENC28J60_reset\<close>. It has no bound of its own: it ends when the
  chip reports \<^verbatim>\<open>ESTAT.CLKRDY\<close> or when the clock passes \<open>timeoutTime\<close>, so it is a
  partial function and \<open>None\<close> stands for a loop that never ends. The result \<open>True\<close> is
  the \<^verbatim>\<open>return 1\<close> inside the loop.
\<close>

partial_function (option) reset_wait_ost ::
  "'t ENC28J60 \<Rightarrow> u32 \<Rightarrow> hal \<Rightarrow> (bool \<times> hal) option" where
  "reset_wait_ost e timeoutTime h =
     (case ENC28J60_readReg e ESTAT h of (r, h1) \<Rightarrow>
        if r AND ESTAT_CLKRDY = 0
        then (case HAL_GetTick h1 of (t, h2) \<Rightarrow>
                if t > timeoutTime then Some (True, h2) else reset_wait_ost e timeoutTime h2)
        else Some (False, h1))"

text \<open>What \<^verbatim>\<open>_ENC28J60_reset\<close> does after the oscillator is ready.\<close>

definition reset_configure :: "'t ENC28J60 \<Rightarrow> hal \<Rightarrow> 't ENC28J60 \<times> hal" where
  "reset_configure e h7 =
     (let (e1, h8) = ENC28J60_setRegBank e ERXTX_BANK h7;
          h9 = ENC28J60_writeReg16 e1 ERXSTL (word_of_int RX_BUF_START) h8;
          h10 = ENC28J60_writeReg16 e1 ERXNDL (word_of_int RX_BUF_END) h9;
          h11 = ENC28J60_writeReg16 e1 ERDPTL (word_of_int RX_BUF_START) h10;
          h12 = ENC28J60_writeReg16 e1 ERXRDPTL (word_of_int RX_BUF_END) h11;
          (e2, h13) = ENC28J60_setRegBank e1 EPKTCNT_BANK h12;
          h14 = ENC28J60_writeReg e2 ERXFCON (ERXFCON_UCEN OR ERXFCON_CRCEN OR ERXFCON_BCEN) h13;
          (e3, h15) = ENC28J60_setRegBank e2 MACONX_BANK h14;
          h16 = ENC28J60_setRegBitField e3 MACON1
                  (MACON1_MARXEN OR MACON1_TXPAUS OR MACON1_RXPAUS) h15;
          h17 = ENC28J60_setRegBitField e3 MACON3
                  (MACON3_PADCFG_FULL OR MACON3_TXCRCEN OR MACON3_FULDPX OR MACON3_FRMLNEN) h16;
          h18 = ENC28J60_writeReg16 e3 MAMXFLL (word_of_int MAX_MAC_LENGTH) h17;
          h19 = ENC28J60_writeReg e3 MABBIPG 0x15 h18;
          h20 = ENC28J60_writeReg e3 MAIPGL 0x12 h19;
          (e4, h21) = ENC28J60_setRegBank e3 MAADRX_BANK h20;
          h22 = ENC28J60_writeReg e4 MAADR6 (macAddress e4 ! 5) h21;
          h23 = ENC28J60_writeReg e4 MAADR5 (macAddress e4 ! 4) h22;
          h24 = ENC28J60_writeReg e4 MAADR4 (macAddress e4 ! 3) h23;
          h25 = ENC28J60_writeReg e4 MAADR3 (macAddress e4 ! 2) h24;
          h26 = ENC28J60_writeReg e4 MAADR2 (macAddress e4 ! 1) h25;
          h27 = ENC28J60_writeReg e4 MAADR1 (macAddress e4 ! 0) h26;
          h28 = ENC28J60_setRegBitField e4 ECON2 ECON2_AUTOINC h27;
          h29 = ENC28J60_writeReg e4 ECON1 ECON1_RXEN h28
      in (e4, h29))"

definition ENC28J60_reset :: "'t ENC28J60 \<Rightarrow> hal \<Rightarrow> (int \<times> 't ENC28J60 \<times> hal) option" where
  "ENC28J60_reset e h =
     (let h1 = ENC28J60_resetAssert e h;
          h2 = sleep_ms 2 h1;
          h3 = ENC28J60_resetDeassert e h2;
          h4 = sleep_ms 2 h3;
          h5 = sleep_ms 2 h4;
          (t, h6) = HAL_GetTick h5;
          timeoutTime = t + 5000
      in case reset_wait_ost e timeoutTime h6 of
           None \<Rightarrow> None
         | Some (True, h7) \<Rightarrow> Some (1, e, h7)
         | Some (False, h7) \<Rightarrow> (case reset_configure e h7 of (e4, h29) \<Rightarrow> Some (0, e4, h29)))"

subsection \<open>Packet input and output\<close>

text \<open>
  The polling loop of \<^verbatim>\<open>ENC28J60_send\<close>; \<open>True\<close> is the \<^verbatim>\<open>return 0\<close> inside it.
\<close>

partial_function (option) send_wait_tx ::
  "'t ENC28J60 \<Rightarrow> u32 \<Rightarrow> hal \<Rightarrow> (bool \<times> hal) option" where
  "send_wait_tx e timeoutTime h =
     (case ENC28J60_readReg e ECON1 h of (r, h1) \<Rightarrow>
        if r AND ECON1_TXRTS > 0
        then (case HAL_GetTick h1 of (t, h2) \<Rightarrow>
                if t > timeoutTime then Some (True, h2) else send_wait_tx e timeoutTime h2)
        else Some (False, h1))"

text \<open>
  \<^verbatim>\<open>ENC28J60_send\<close> returns the \<^verbatim>\<open>int\<close> result together with the updated handle.
  \<open>dataend\<close> is a \<^verbatim>\<open>uint16_t\<close>: the sum is truncated to 16 bits.
\<close>

definition ENC28J60_send ::
  "'t ENC28J60 \<Rightarrow> u8 list \<Rightarrow> u16 \<Rightarrow> hal \<Rightarrow> (int \<times> 't ENC28J60 \<times> hal) option" where
  "ENC28J60_send e data datalen h =
     (let (e1, h1) = ENC28J60_setRegBank e ERXTX_BANK h;
          h2 = ENC28J60_writeReg16 e1 ETXSTL (word_of_int TX_BUF_START) h1;
          h3 = ENC28J60_writeReg16 e1 EWRPTL (word_of_int TX_BUF_START) h2;
          h4 = ENC28J60_writeDataByte e1 0x00 h3;
          h5 = ENC28J60_writeData e1 data (uint datalen) h4;
          dataend = (word_of_int (TX_BUF_START + uint datalen) :: u16);
          h6 = ENC28J60_writeReg16 e1 ETXNDL dataend h5;
          h7 = ENC28J60_clearRegBitField e1 EIR EIR_TXIF h6;
          h8 = ENC28J60_setRegBitField e1 ECON1 ECON1_TXRTS h7;
          (t, h9) = HAL_GetTick h8;
          timeoutTime = t + 5000
      in case send_wait_tx e1 timeoutTime h9 of
           None \<Rightarrow> None
         | Some (True, h10) \<Rightarrow> Some (0, e1, h10)
         | Some (False, h10) \<Rightarrow>
             Some (uint datalen, e1\<lparr>sentPackets := sentPackets e1 + 1\<rparr>, h10))"

text \<open>
  The flush loop of \<^verbatim>\<open>ENC28J60_receive\<close>. Its index is a \<^verbatim>\<open>uint16_t\<close> compared with
  the \<^verbatim>\<open>int\<close> \<open>len\<close>; \<open>len\<close> is at most 0xffff (lemma \<open>rx_len_bound\<close> below), so the
  index never wraps and is written as an \<open>int\<close>.
\<close>

function flush_loop :: "'t ENC28J60 \<Rightarrow> int \<Rightarrow> int \<Rightarrow> hal \<Rightarrow> hal" where
  "flush_loop e len i h =
     (if i < len then flush_loop e len (i + 1) (snd (ENC28J60_readDataByte e h)) else h)"
  by pat_completeness auto
termination
  by (relation "measure (\<lambda>(e, len, i, h). nat (len - i))") auto

text \<open>
  \<^verbatim>\<open>ENC28J60_receive\<close> returns the \<^verbatim>\<open>int\<close> result, the updated handle and the caller's
  buffer. \<open>len\<close> and \<open>next\<close> are non-negative \<^verbatim>\<open>int\<close>s, so \<^verbatim>\<open>len % 2\<close> is \<open>len mod 2\<close>.
\<close>

definition ENC28J60_receive ::
  "'t ENC28J60 \<Rightarrow> u8 list \<Rightarrow> u16 \<Rightarrow> hal \<Rightarrow> int \<times> 't ENC28J60 \<times> u8 list \<times> hal" where
  "ENC28J60_receive e buffer bufsize h =
     (let (e1, h1) = ENC28J60_setRegBank e EPKTCNT_BANK h;
          (n, h2) = ENC28J60_readReg e1 EPKTCNT h1
      in if uint n = 0 then (0, e1, buffer, h2)
         else
          (let (e2, h3) = ENC28J60_setRegBank e1 ERXTX_BANK h2;
               (nxtpkt0, h4) = ENC28J60_readDataByte e2 h3;
               (nxtpkt1, h5) = ENC28J60_readDataByte e2 h4;
               (length0, h6) = ENC28J60_readDataByte e2 h5;
               (length1, h7) = ENC28J60_readDataByte e2 h6;
               (status0, h8) = ENC28J60_readDataByte e2 h7;
               (status1, h9) = ENC28J60_readDataByte e2 h8;
               len = push_bit 8 (uint length1) + uint length0;
               (err, buffer', h10) =
                 (if uint bufsize \<ge> len
                  then (case ENC28J60_readData e2 buffer len h9 of (i, b, h') \<Rightarrow> (False, b, h'))
                  else (True, buffer, flush_loop e2 len 0 h9));
               h11 = (if len mod 2 \<noteq> 0 then snd (ENC28J60_readDataByte e2 h10) else h10);
               next0 = push_bit 8 (uint nxtpkt1) + uint nxtpkt0;
               next1 = (if next0 = RX_BUF_START then RX_BUF_END else next0 - 1);
               h12 = ENC28J60_writeReg16 e2 ERXRDPTL (word_of_int next1) h11;
               h13 = ENC28J60_setRegBitField e2 ECON2 ECON2_PKTDEC h12
           in if err then (0, e2, buffer', h13)
              else (len, e2\<lparr>receivedPackets := receivedPackets e2 + 1\<rparr>, buffer', h13)))"

subsection \<open>Watchdog and setup\<close>

text \<open>
  \<^verbatim>\<open>periodicTimer_hasElapsed\<close> and \<^verbatim>\<open>periodicTimer_setup\<close> come from \<^verbatim>\<open>utils/timer.h\<close>,
  outside the driver: they are parameters. Each gets the timer and the world and returns
  them, so that a timer that reads the clock is covered.
\<close>

definition ENC28J60_tick ::
  "('t \<Rightarrow> hal \<Rightarrow> bool \<times> 't \<times> hal) \<Rightarrow> 't ENC28J60 \<Rightarrow> hal \<Rightarrow> ('t ENC28J60 \<times> hal) option" where
  "ENC28J60_tick periodicTimer_hasElapsed e h =
     (case periodicTimer_hasElapsed (watchDogTimer e) h of (elapsed, tm, h1) \<Rightarrow>
        let e1 = e\<lparr>watchDogTimer := tm\<rparr> in
        if elapsed then
          (case (if sint (receivedPackets e1) \<le> sint (sentPackets e1)
                 then (case ENC28J60_reset e1 h1 of
                         None \<Rightarrow> None | Some (r, e2, h2) \<Rightarrow> Some (e2, h2))
                 else Some (e1, h1)) of
             None \<Rightarrow> None
           | Some (e2, h2) \<Rightarrow> Some (e2\<lparr>receivedPackets := 0, sentPackets := 0\<rparr>, h2))
        else Some (e1, h1))"

text \<open>The loop \<^verbatim>\<open>while(_ENC28J60_reset(enc28j60) != 0);\<close> of \<^verbatim>\<open>ENC28J60_setup\<close>.\<close>

partial_function (option) setup_retry ::
  "'t ENC28J60 \<Rightarrow> hal \<Rightarrow> ('t ENC28J60 \<times> hal) option" where
  "setup_retry e h =
     (case ENC28J60_reset e h of
        None \<Rightarrow> None
      | Some (r, e1, h1) \<Rightarrow> if r \<noteq> 0 then setup_retry e1 h1 else Some (e1, h1))"

definition ENC28J60_setup ::
  "('t \<Rightarrow> u32 \<Rightarrow> hal \<Rightarrow> 't \<times> hal) \<Rightarrow> 't ENC28J60 \<Rightarrow> hal \<Rightarrow>
     (HAL_StatusTypeDef \<times> 't ENC28J60 \<times> hal) option" where
  "ENC28J60_setup periodicTimer_setup e h =
     (let e1 = e\<lparr>bank := ERXTX_BANK\<rparr>;
          e2 = e1\<lparr>receivedPackets := 0\<rparr>;
          e3 = e2\<lparr>sentPackets := 0\<rparr>;
          (tm, h1) = periodicTimer_setup (watchDogTimer e3) (30 * 1000) h;
          e4 = e3\<lparr>watchDogTimer := tm\<rparr>
      in case setup_retry e4 h1 of
           None \<Rightarrow> None
         | Some (e5, h2) \<Rightarrow> Some (HAL_OK, e5, h2))"

subsection \<open>Vocabulary for stating what a call does to the world\<close>

text \<open>
  \<open>xfer e bytes\<close> is one bus transaction: chip select driven low, the bytes clocked
  out, chip select driven high. \<open>hal_after evs n m h\<close> is the world \<open>h\<close> after the
  driver has output the events \<open>evs\<close>, exchanged \<open>n\<close> bytes with the chip and read the
  clock \<open>m\<close> times. \<open>rx h k\<close> is the byte the chip returns at the \<open>k\<close>-th exchange
  counted from \<open>h\<close> (from 0).
\<close>

definition xfer :: "'t ENC28J60 \<Rightarrow> u8 list \<Rightarrow> hal_event list" where
  "xfer e bytes =
     GPIO_WritePin (csPort e) (csPin e) GPIO_PIN_RESET # map (SPI_Transmit (spi e)) bytes
       @ [GPIO_WritePin (csPort e) (csPin e) GPIO_PIN_SET]"

definition hal_after :: "hal_event list \<Rightarrow> nat \<Rightarrow> nat \<Rightarrow> hal \<Rightarrow> hal" where
  "hal_after evs n m h =
     h\<lparr>spi_count := spi_count h + n, tick_count := tick_count h + m, trace := trace h @ evs\<rparr>"

definition rx :: "hal \<Rightarrow> nat \<Rightarrow> u8" where
  "rx h k = miso h (spi_count h + k)"

text \<open>
  The descriptor fields as \<^verbatim>\<open>ENC28J60_receive\<close> decodes them, for a call started in
  \<open>h\<close>: the pending-packet counter is the byte returned at exchange 5, the next-packet
  pointer is made of the bytes at exchanges 11 (low) and 13 (high), the length of the
  bytes at exchanges 15 (low) and 17 (high).
\<close>

definition rx_pktcnt :: "hal \<Rightarrow> u8" where
  "rx_pktcnt h = rx h 5"

definition rx_next :: "hal \<Rightarrow> int" where
  "rx_next h = push_bit 8 (uint (rx h 13)) + uint (rx h 11)"

definition rx_len :: "hal \<Rightarrow> int" where
  "rx_len h = push_bit 8 (uint (rx h 17)) + uint (rx h 15)"

text \<open>
  The bus traffic of a 16-bit register write, of \<^verbatim>\<open>ENC28J60_receive\<close> up to the end of
  the six descriptor bytes, of \<^verbatim>\<open>ENC28J60_send\<close> up to the transmit request, and of the
  reset pulse at the start of \<^verbatim>\<open>_ENC28J60_reset\<close>.
\<close>

definition write16_events :: "'t ENC28J60 \<Rightarrow> u8 \<Rightarrow> u16 \<Rightarrow> hal_event list" where
  "write16_events e reg v =
     xfer e [0x40 OR (reg AND 0x1f), ucast (v AND 0xff)]
     @ xfer e [0x40 OR ((reg + 1) AND 0x1f), ucast (drop_bit 8 v AND 0xff)]"

definition receive_prologue :: "'t ENC28J60 \<Rightarrow> hal \<Rightarrow> hal_event list" where
  "receive_prologue e h =
     xfer e [0x1f, 0] @ xfer e [0x5f, (rx h 1 AND 0xfc) OR 0x01] @ xfer e [0x19, 0]
     @ xfer e [0x1f, 0] @ xfer e [0x5f, rx h 7 AND 0xfc]
     @ concat (replicate 6 (xfer e [0x3a, 0]))"

definition send_prologue :: "'t ENC28J60 \<Rightarrow> u8 list \<Rightarrow> u16 \<Rightarrow> hal \<Rightarrow> hal_event list" where
  "send_prologue e data datalen h =
     xfer e [0x1f, 0] @ xfer e [0x5f, rx h 1 AND 0xfc]
     @ write16_events e ETXSTL 0x1200
     @ write16_events e EWRPTL 0x1200
     @ xfer e [0x7a, 0]
     @ xfer e (0x7a # map (\<lambda>j. data ! j) [0..<unat datalen])
     @ write16_events e ETXNDL (0x1200 + datalen)
     @ xfer e [0xbc, 0x08]
     @ xfer e [0x9f, 0x08]"

definition reset_pulse :: "'t ENC28J60 \<Rightarrow> hal_event list" where
  "reset_pulse e =
     [GPIO_WritePin (resetPort e) (resetPin e) GPIO_PIN_RESET, Sleep_ms 2,
      GPIO_WritePin (resetPort e) (resetPin e) GPIO_PIN_SET, Sleep_ms 2, Sleep_ms 2]"

text \<open>
  \<open>bus_only e evs\<close>: the events are chip-select writes and serial exchanges of the device
  only; no other pin is written (the reset line is one) and there is no delay.
  \<open>extends h h'\<close>: \<open>h'\<close> is \<open>h\<close> after some more events, exchanges and clock reads.
\<close>

definition bus_only :: "'t ENC28J60 \<Rightarrow> hal_event list \<Rightarrow> bool" where
  "bus_only e evs \<longleftrightarrow>
     (\<forall>ev \<in> set evs.
        case ev of
          GPIO_WritePin port pin st \<Rightarrow> port = csPort e \<and> pin = csPin e
        | SPI_Transmit port b \<Rightarrow> port = spi e
        | Sleep_ms n \<Rightarrow> False)"

definition extends :: "hal \<Rightarrow> hal \<Rightarrow> bool" where
  "extends h h' \<longleftrightarrow> (\<exists>evs n m. h' = hal_after evs n m h)"

text \<open>
  The two polling loops, seen from the world \<open>h\<close> in which \<^verbatim>\<open>_ENC28J60_reset\<close>
  (\<^verbatim>\<open>ENC28J60_send\<close>) is called. Both read the clock once for the deadline and once
  after every unsuccessful poll: \<open>deadline_passed h j\<close> says that the clock value read
  after poll \<open>j\<close> is greater than the deadline \<^verbatim>\<open>HAL_GetTick() + 5000\<close>, both
  \<^verbatim>\<open>uint32_t\<close> as in the code (the sum wraps at 2^32). \<open>osc_ready h j\<close>
  says that poll \<open>j\<close> of the reset reads \<^verbatim>\<open>ESTAT.CLKRDY\<close> as set, \<open>tx_busy h datalen j\<close>
  that poll \<open>j\<close> of a send of \<open>datalen\<close> bytes reads \<^verbatim>\<open>ECON1.TXRTS\<close> as set.
\<close>

definition deadline_passed :: "hal \<Rightarrow> nat \<Rightarrow> bool" where
  "deadline_passed h j \<longleftrightarrow> clock h (tick_count h + 1 + j) > clock h (tick_count h) + 5000"

definition osc_ready :: "hal \<Rightarrow> nat \<Rightarrow> bool" where
  "osc_ready h j \<longleftrightarrow> rx h (2 * j + 1) AND ESTAT_CLKRDY \<noteq> 0"

definition tx_busy :: "hal \<Rightarrow> u16 \<Rightarrow> nat \<Rightarrow> bool" where
  "tx_busy h datalen j \<longleftrightarrow> rx h (24 + unat datalen + 2 * j) AND ECON1_TXRTS \<noteq> 0"

subsection \<open>Concrete devices and worlds\<close>

text \<open>
  A device handle and worlds to run the driver on: in \<open>world bs step\<close> the chip returns
  the bytes \<open>bs\<close> and then zeros, and each clock read is \<open>step\<close> ms after the one before.
\<close>

definition dev0 :: "unit ENC28J60" where
  "dev0 = \<lparr>spi = 0, macAddress = [0x02, 0x00, 0x00, 0x00, 0x00, 0x01], csPort = 1, csPin = 0x10,
           resetPort = 1, resetPin = 0x20, bank = 0, receivedPackets = 0, sentPackets = 0,
           watchDogTimer = ()\<rparr>"

definition world :: "u8 list \<Rightarrow> nat \<Rightarrow> hal" where
  "world bs step =
     \<lparr>miso = (\<lambda>n. if n < length bs then bs ! n else 0), spi_count = 0,
      clock = (\<lambda>n. of_nat (n * step)), tick_count = 0, trace = []\<rparr>"

definition always_elapsed :: "unit \<Rightarrow> hal \<Rightarrow> bool \<times> unit \<times> hal" where
  "always_elapsed tm h = (True, tm, h)"

definition timer_setup0 :: "unit \<Rightarrow> u32 \<Rightarrow> hal \<Rightarrow> unit \<times> hal" where
  "timer_setup0 tm ms h = (tm, h)"

text \<open>
  \<open>frame_world\<close>: the chip reports one pending frame; its descriptor gives the next-packet
  pointer 0x0010 and the length 3, and the payload bytes that a copy reads are aa bb cc.
\<close>

definition frame_world :: hal where
  "frame_world =
     world [0, 0, 0, 0, 0, 1, 0, 0, 0, 0, 0, 0x10, 0, 0, 0, 3, 0, 0, 0, 0, 0, 0, 0, 0xaa, 0xbb, 0xcc] 1"

text \<open>
  \<open>late_world bs fill start\<close>: the chip returns the bytes \<open>bs\<close> and then \<open>fill\<close> for ever;
  the clock is a millisecond counter that reads \<open>start\<close> first and one more at each
  read, wrapping at 2^32 as the \<^verbatim>\<open>uint32_t\<close> tick counter does.
\<close>

definition late_world :: "u8 list \<Rightarrow> u8 \<Rightarrow> u32 \<Rightarrow> hal" where
  "late_world bs fill start =
     \<lparr>miso = (\<lambda>n. if n < length bs then bs ! n else fill), spi_count = 0,
      clock = (\<lambda>n. start + of_nat n), tick_count = 0, trace = []\<rparr>"

section \<open>What each call does to the world\<close>

lemmas reg_defs =
  EIE_def EIR_def ESTAT_def ECON2_def ECON1_def ESTAT_CLKRDY_def ECON1_RXEN_def
  ECON1_TXRTS_def ECON2_AUTOINC_def ECON2_PKTDEC_def EIR_TXIF_def ERXTX_BANK_def
  ERDPTL_def EWRPTL_def ETXSTL_def ETXNDL_def ERXSTL_def ERXNDL_def ERXRDPTL_def
  ERXRDPTH_def RX_BUF_START_def RX_BUF_END_def TX_BUF_START_def MACONX_BANK_def
  MACON1_def MACON3_def MABBIPG_def MAIPGL_def MAMXFLL_def MACON1_TXPAUS_def
  MACON1_RXPAUS_def MACON1_MARXEN_def MACON3_PADCFG_FULL_def MACON3_TXCRCEN_def
  MACON3_FRMLNEN_def MACON3_FULDPX_def MAX_MAC_LENGTH_def MAADRX_BANK_def MAADR1_def
  MAADR2_def MAADR3_def MAADR4_def MAADR5_def MAADR6_def MISTAT_def EREVID_def
  EPKTCNT_BANK_def ERXFCON_def EPKTCNT_def ERXFCON_UCEN_def ERXFCON_CRCEN_def
  ERXFCON_BCEN_def



declare writeData_loop.simps [simp del] readData_loop.simps [simp del] flush_loop.simps [simp del]

lemma hal_after_0 [simp]: "hal_after [] 0 0 h = h"
  by (simp add: hal_after_def)

lemma hal_after_after [simp]:
  "hal_after evs2 n2 m2 (hal_after evs1 n1 m1 h) = hal_after (evs1 @ evs2) (n1 + n2) (m1 + m2) h"
  by (simp add: hal_after_def add.assoc)

lemma hal_after_sel [simp]:
  "miso (hal_after evs n m h) = miso h"
  "clock (hal_after evs n m h) = clock h"
  "spi_count (hal_after evs n m h) = spi_count h + n"
  "tick_count (hal_after evs n m h) = tick_count h + m"
  "trace (hal_after evs n m h) = trace h @ evs"
  by (simp_all add: hal_after_def)

lemma rx_after [simp]: "rx (hal_after evs n m h) k = rx h (n + k)"
  by (simp add: rx_def add.assoc)

lemma xfer_bank [simp]: "xfer (e\<lparr>bank := b\<rparr>) bs = xfer e bs"
  by (simp add: xfer_def)

lemma spiAssert_after: "ENC28J60_spiAssert e h = hal_after [GPIO_WritePin (csPort e) (csPin e) GPIO_PIN_RESET] 0 0 h"
  by (simp add: ENC28J60_spiAssert_def HAL_GPIO_WritePin_def hal_after_def)

lemma spiDeassert_after: "ENC28J60_spiDeassert e h = hal_after [GPIO_WritePin (csPort e) (csPin e) GPIO_PIN_SET] 0 0 h"
  by (simp add: ENC28J60_spiDeassert_def HAL_GPIO_WritePin_def hal_after_def)

lemma spiTx_after: "ENC28J60_spiTx e v h = (rx h 0, hal_after [SPI_Transmit (spi e) v] 1 0 h)"
  by (simp add: ENC28J60_spiTx_def HAL_SPI_TransmitReceive_def hal_after_def rx_def)

lemma GetTick_after: "HAL_GetTick h = (clock h (tick_count h), hal_after [] 0 1 h)"
  by (simp add: HAL_GetTick_def hal_after_def)

lemmas prim_after = spiAssert_after spiDeassert_after spiTx_after

lemma readReg_after:
  "ENC28J60_readReg e reg h =
     (if ENC28J60_isMacMiiReg e reg
      then (rx h 2, hal_after (xfer e [reg AND 0x1f, 0, 0]) 3 0 h)
      else (rx h 1, hal_after (xfer e [reg AND 0x1f, 0]) 2 0 h))"
  by (simp add: ENC28J60_readReg_def prim_after xfer_def numeral_2_eq_2)

lemma writeReg_after:
  "ENC28J60_writeReg e reg d h = hal_after (xfer e [0x40 OR (reg AND 0x1f), d]) 2 0 h"
  by (simp add: ENC28J60_writeReg_def prim_after xfer_def)

lemma writeReg16_after:
  "ENC28J60_writeReg16 e reg d h =
     hal_after (xfer e [0x40 OR (reg AND 0x1f), ucast (d AND 0xff)]
                @ xfer e [0x40 OR ((reg + 1) AND 0x1f), ucast (drop_bit 8 d AND 0xff)]) 4 0 h"
  by (simp add: ENC28J60_writeReg16_def writeReg_after)

lemma isMacMiiReg_ECON1 [simp]: "\<not> ENC28J60_isMacMiiReg e ECON1"
  by (simp add: ENC28J60_isMacMiiReg_def reg_defs)

lemma setRegBank_after:
  "ENC28J60_setRegBank e b h =
     (e\<lparr>bank := b\<rparr>,
      hal_after (xfer e [0x1f, 0] @ xfer e [0x5f, (rx h 1 AND 0xfc) OR (b AND 0x03)]) 4 0 h)"
  by (simp add: ENC28J60_setRegBank_def readReg_after writeReg_after) (simp add: reg_defs)


lemma setRegBitField_after:
  "ENC28J60_setRegBitField e reg m h =
     (if ENC28J60_isMacMiiReg e reg
      then hal_after (xfer e [reg AND 0x1f, 0, 0] @ xfer e [0x40 OR (reg AND 0x1f), rx h 2 OR m]) 5 0 h
      else hal_after (xfer e [0x80 OR (reg AND 0x1f), m]) 2 0 h)"
  by (simp add: ENC28J60_setRegBitField_def readReg_after writeReg_after prim_after xfer_def)

lemma clearRegBitField_after:
  "ENC28J60_clearRegBitField e reg m h =
     (if ENC28J60_isMacMiiReg e reg
      then hal_after (xfer e [reg AND 0x1f, 0, 0] @ xfer e [0x40 OR (reg AND 0x1f), rx h 2 AND NOT m]) 5 0 h
      else hal_after (xfer e [0xa0 OR (reg AND 0x1f), m]) 2 0 h)"
  by (simp add: ENC28J60_clearRegBitField_def readReg_after writeReg_after prim_after xfer_def)

lemma writeData_loop_after:
  "0 \<le> i \<Longrightarrow> writeData_loop e data datalen i h =
     hal_after (map (\<lambda>j. SPI_Transmit (spi e) (data ! j)) [nat i..<nat datalen]) (nat datalen - nat i) 0 h"
proof (induction e data datalen i h rule: writeData_loop.induct)
  case (1 e data datalen i h)
  show ?case
  proof (cases "i < datalen")
    case True
    with 1 have n: "nat i < nat datalen" "nat (i + 1) = Suc (nat i)"
      "Suc (nat datalen - Suc (nat i)) = nat datalen - nat i" by auto
    from True 1 have "writeData_loop e data datalen i h =
        writeData_loop e data datalen (i + 1) (snd (ENC28J60_spiTx e (data ! nat i) h))"
      by (simp add: writeData_loop.simps [of e data datalen i])
    also have "\<dots> = hal_after (map (\<lambda>j. SPI_Transmit (spi e) (data ! j)) [nat (i + 1)..<nat datalen])
                       (nat datalen - nat (i + 1)) 0 (snd (ENC28J60_spiTx e (data ! nat i) h))"
      using 1 True by simp
    also have "\<dots> = hal_after (map (\<lambda>j. SPI_Transmit (spi e) (data ! j)) [nat i..<nat datalen])
                       (nat datalen - nat i) 0 h"
      using n by (simp add: spiTx_after upt_conv_Cons)
    finally show ?thesis .
  next
    case False
    with 1 show ?thesis by (simp add: writeData_loop.simps [of e data datalen i])
  qed
qed


lemma writeData_after:
  "ENC28J60_writeData e data datalen h =
     hal_after (xfer e (0x7a # map (\<lambda>j. data ! j) [0..<nat datalen])) (Suc (nat datalen)) 0 h"
  by (simp add: ENC28J60_writeData_def prim_after writeData_loop_after xfer_def comp_def)

lemma writeDataByte_after:
  "ENC28J60_writeDataByte e b h = hal_after (xfer e [0x7a, b]) 2 0 h"
  by (simp add: ENC28J60_writeDataByte_def writeData_after)


lemma readData_loop_after:
  "0 \<le> i \<Longrightarrow> readData_loop e buf len i h =
     (max i len,
      map (\<lambda>j. if nat i \<le> j \<and> j < nat len then rx h (j - nat i) else buf ! j) [0..<length buf],
      hal_after (replicate (nat len - nat i) (SPI_Transmit (spi e) 0)) (nat len - nat i) 0 h)"
proof (induction e buf len i h rule: readData_loop.induct)
  case (1 e buf len i h)
  show ?case
  proof (cases "i < len")
    case True
    let ?h1 = "hal_after [SPI_Transmit (spi e) 0] 1 0 h"
    let ?b1 = "buf[nat i := rx h 0]"
    from True 1 have n: "nat i < nat len" "nat (i + 1) = Suc (nat i)" "0 \<le> i + 1" by auto
    have "readData_loop e buf len i h = readData_loop e ?b1 len (i + 1) ?h1"
      using True by (simp add: readData_loop.simps [of e buf len i] spiTx_after)
    also have "\<dots> = (max (i + 1) len,
        map (\<lambda>j. if nat (i + 1) \<le> j \<and> j < nat len then rx ?h1 (j - nat (i + 1)) else ?b1 ! j)
          [0..<length ?b1],
        hal_after (replicate (nat len - nat (i + 1)) (SPI_Transmit (spi e) 0))
          (nat len - nat (i + 1)) 0 ?h1)"
      using "1.IH" [OF True, of "(rx h 0, ?h1)" "rx h 0" ?h1] n(3) by (simp add: spiTx_after)
    also have "\<dots> = (max i len,
        map (\<lambda>j. if nat i \<le> j \<and> j < nat len then rx h (j - nat i) else buf ! j) [0..<length buf],
        hal_after (replicate (nat len - nat i) (SPI_Transmit (spi e) 0)) (nat len - nat i) 0 h)"
    proof -
      have a: "max (i + 1) len = max i len" using True by simp
      have b: "map (\<lambda>j. if nat (i + 1) \<le> j \<and> j < nat len then rx ?h1 (j - nat (i + 1)) else ?b1 ! j)
                 [0..<length ?b1] =
               map (\<lambda>j. if nat i \<le> j \<and> j < nat len then rx h (j - nat i) else buf ! j) [0..<length buf]"
      proof (rule nth_equalityI)
        show "length (map (\<lambda>j. if nat (i + 1) \<le> j \<and> j < nat len then rx ?h1 (j - nat (i + 1)) else ?b1 ! j)
                 [0..<length ?b1]) =
              length (map (\<lambda>j. if nat i \<le> j \<and> j < nat len then rx h (j - nat i) else buf ! j)
                 [0..<length buf])"
          by simp
      next
        fix j
        assume "j < length (map (\<lambda>j. if nat (i + 1) \<le> j \<and> j < nat len then rx ?h1 (j - nat (i + 1)) else ?b1 ! j)
                 [0..<length ?b1])"
        then have j: "j < length buf" by simp
        consider "j < nat i" | "j = nat i" | "nat i < j"
          by linarith
        then show "map (\<lambda>j. if nat (i + 1) \<le> j \<and> j < nat len then rx ?h1 (j - nat (i + 1)) else ?b1 ! j)
                 [0..<length ?b1] ! j =
               map (\<lambda>j. if nat i \<le> j \<and> j < nat len then rx h (j - nat i) else buf ! j)
                 [0..<length buf] ! j"
        proof cases
          case 1
          with j n show ?thesis by simp
        next
          case 2
          with j n show ?thesis by simp
        next
          case 3
          with j n show ?thesis by (simp add: Suc_diff_Suc)
        qed
      qed
      have c: "hal_after (replicate (nat len - nat (i + 1)) (SPI_Transmit (spi e) 0))
                 (nat len - nat (i + 1)) 0 ?h1 =
               hal_after (replicate (nat len - nat i) (SPI_Transmit (spi e) 0)) (nat len - nat i) 0 h"
        using n by (simp add: Suc_diff_Suc replicate_Suc [symmetric] del: replicate_Suc)
      show ?thesis by (simp only: a b c)
    qed
    finally show ?thesis .
  next
    case False
    then have "nat len \<le> nat i" by simp
    then have "map (\<lambda>j. if nat i \<le> j \<and> j < nat len then rx h (j - nat i) else buf ! j)
                 [0..<length buf] = buf"
      by (intro nth_equalityI) auto
    with False show ?thesis by (simp add: readData_loop.simps [of e buf len i])
  qed
qed


lemma readData_after:
  "0 \<le> len \<Longrightarrow> ENC28J60_readData e buf len h =
     (len,
      map (\<lambda>j. if j < nat len then rx h (1 + j) else buf ! j) [0..<length buf],
      hal_after (xfer e (0x3a # replicate (nat len) 0)) (1 + nat len) 0 h)"
  by (simp add: ENC28J60_readData_def prim_after readData_loop_after xfer_def)

lemma readDataByte_after:
  "ENC28J60_readDataByte e h = (rx h 1, hal_after (xfer e [0x3a, 0]) 2 0 h)"
  by (simp add: ENC28J60_readDataByte_def readData_after)

lemma flush_loop_after:
  "0 \<le> i \<Longrightarrow> flush_loop e len i h =
     hal_after (concat (replicate (nat len - nat i) (xfer e [0x3a, 0]))) (2 * (nat len - nat i)) 0 h"
proof (induction e len i h rule: flush_loop.induct)
  case (1 e len i h)
  show ?case
  proof (cases "i < len")
    case True
    with 1 have n: "0 \<le> i + 1" "nat len - nat i = Suc (nat len - nat (i + 1))" by auto
    have "flush_loop e len i h =
            flush_loop e len (i + 1) (hal_after (xfer e [0x3a, 0]) 2 0 h)"
      using True by (simp add: flush_loop.simps [of e len i] readDataByte_after)
    also have "\<dots> = hal_after (concat (replicate (nat len - nat (i + 1)) (xfer e [0x3a, 0])))
                         (2 * (nat len - nat (i + 1))) 0 (hal_after (xfer e [0x3a, 0]) 2 0 h)"
      using "1.IH" [OF True n(1)] by (simp add: readDataByte_after)
    also have "\<dots> = hal_after (concat (replicate (nat len - nat i) (xfer e [0x3a, 0])))
                         (2 * (nat len - nat i)) 0 h"
      by (simp add: n(2))
    finally show ?thesis .
  next
    case False
    then show ?thesis by (simp add: flush_loop.simps [of e len i])
  qed
qed

lemma isMacMiiReg_ESTAT [simp]: "\<not> ENC28J60_isMacMiiReg e ESTAT"
  by (simp add: ENC28J60_isMacMiiReg_def reg_defs)

lemma readReg_ESTAT: "ENC28J60_readReg e ESTAT h = (rx h 1, hal_after (xfer e [0x1d, 0]) 2 0 h)"
  by (simp add: readReg_after) (simp add: ESTAT_def)

lemma readReg_ECON1: "ENC28J60_readReg e ECON1 h = (rx h 1, hal_after (xfer e [0x1f, 0]) 2 0 h)"
  by (simp add: readReg_after) (simp add: ECON1_def)

lemma reset_wait_ost_timeout:
  assumes "\<forall>j\<le>k. rx h (2 * j + 1) AND ESTAT_CLKRDY = 0"
    and "\<forall>j<k. \<not> clock h (tick_count h + j) > T"
    and "clock h (tick_count h + k) > T"
  shows "reset_wait_ost e T h =
           Some (True, hal_after (concat (replicate (Suc k) (xfer e [0x1d, 0]))) (2 * Suc k) (Suc k) h)"
  using assms
proof (induction k arbitrary: h)
  case 0
  then show ?case
    by (subst reset_wait_ost.simps) (simp add: readReg_ESTAT GetTick_after)
next
  case (Suc k)
  let ?h = "hal_after (xfer e [0x1d, 0]) 2 1 h"
  from Suc.prems(1) have r0: "rx h 1 AND ESTAT_CLKRDY = 0" by (metis le0 mult_0_right add_0)
  from Suc.prems(2) have c0: "\<not> clock h (tick_count h) > T" by (metis zero_less_Suc add_0_right)
  have a: "\<forall>j\<le>k. rx ?h (2 * j + 1) AND ESTAT_CLKRDY = 0"
  proof (intro allI impI)
    fix j assume "j \<le> k"
    then have "rx h (2 * Suc j + 1) AND ESTAT_CLKRDY = 0" using Suc.prems(1) by (metis Suc_le_mono)
    then show "rx ?h (2 * j + 1) AND ESTAT_CLKRDY = 0" by (simp add: add.commute)
  qed
  have b: "\<forall>j<k. \<not> clock ?h (tick_count ?h + j) > T"
  proof (intro allI impI)
    fix j assume "j < k"
    then have "\<not> clock h (tick_count h + Suc j) > T" using Suc.prems(2) by (metis Suc_less_eq)
    then show "\<not> clock ?h (tick_count ?h + j) > T" by simp
  qed
  have c: "clock ?h (tick_count ?h + k) > T" using Suc.prems(3) by simp
  have "reset_wait_ost e T h = reset_wait_ost e T ?h"
    using r0 c0 by (subst reset_wait_ost.simps) (simp add: readReg_ESTAT GetTick_after)
  also have "\<dots> = Some (True, hal_after (concat (replicate (Suc k) (xfer e [0x1d, 0]))) (2 * Suc k) (Suc k) ?h)"
    by (rule Suc.IH [OF a b c])
  also have "\<dots> = Some (True, hal_after (concat (replicate (Suc (Suc k)) (xfer e [0x1d, 0])))
                       (2 * Suc (Suc k)) (Suc (Suc k)) h)"
    by simp
  finally show ?case .
qed

lemma reset_wait_ost_ready:
  assumes "\<forall>j<k. rx h (2 * j + 1) AND ESTAT_CLKRDY = 0"
    and "\<forall>j<k. \<not> clock h (tick_count h + j) > T"
    and "rx h (2 * k + 1) AND ESTAT_CLKRDY \<noteq> 0"
  shows "reset_wait_ost e T h =
           Some (False, hal_after (concat (replicate (Suc k) (xfer e [0x1d, 0]))) (2 * Suc k) k h)"
  using assms
proof (induction k arbitrary: h)
  case 0
  then show ?case
    by (subst reset_wait_ost.simps) (simp add: readReg_ESTAT GetTick_after)
next
  case (Suc k)
  let ?h = "hal_after (xfer e [0x1d, 0]) 2 1 h"
  from Suc.prems(1) have r0: "rx h 1 AND ESTAT_CLKRDY = 0" by (metis zero_less_Suc mult_0_right add_0)
  from Suc.prems(2) have c0: "\<not> clock h (tick_count h) > T" by (metis zero_less_Suc add_0_right)
  have a: "\<forall>j<k. rx ?h (2 * j + 1) AND ESTAT_CLKRDY = 0"
  proof (intro allI impI)
    fix j assume "j < k"
    then have "rx h (2 * Suc j + 1) AND ESTAT_CLKRDY = 0" using Suc.prems(1) by (metis Suc_less_eq)
    then show "rx ?h (2 * j + 1) AND ESTAT_CLKRDY = 0" by (simp add: add.commute)
  qed
  have b: "\<forall>j<k. \<not> clock ?h (tick_count ?h + j) > T"
  proof (intro allI impI)
    fix j assume "j < k"
    then have "\<not> clock h (tick_count h + Suc j) > T" using Suc.prems(2) by (metis Suc_less_eq)
    then show "\<not> clock ?h (tick_count ?h + j) > T" by simp
  qed
  have c: "rx ?h (2 * k + 1) AND ESTAT_CLKRDY \<noteq> 0" using Suc.prems(3) by (simp add: add.commute)
  have "reset_wait_ost e T h = reset_wait_ost e T ?h"
    using r0 c0 by (subst reset_wait_ost.simps) (simp add: readReg_ESTAT GetTick_after)
  also have "\<dots> = Some (False, hal_after (concat (replicate (Suc k) (xfer e [0x1d, 0]))) (2 * Suc k) k ?h)"
    by (rule Suc.IH [OF a b c])
  also have "\<dots> = Some (False, hal_after (concat (replicate (Suc (Suc k)) (xfer e [0x1d, 0])))
                       (2 * Suc (Suc k)) (Suc k) h)"
    by simp
  finally show ?case .
qed

lemma send_wait_tx_timeout:
  assumes "\<forall>j\<le>k. rx h (2 * j + 1) AND ECON1_TXRTS \<noteq> 0"
    and "\<forall>j<k. \<not> clock h (tick_count h + j) > T"
    and "clock h (tick_count h + k) > T"
  shows "send_wait_tx e T h =
           Some (True, hal_after (concat (replicate (Suc k) (xfer e [0x1f, 0]))) (2 * Suc k) (Suc k) h)"
  using assms
proof (induction k arbitrary: h)
  case 0
  then show ?case
    by (subst send_wait_tx.simps) (simp add: readReg_ECON1 GetTick_after word_greater_zero_iff)
next
  case (Suc k)
  let ?h = "hal_after (xfer e [0x1f, 0]) 2 1 h"
  from Suc.prems(1) have r0: "rx h 1 AND ECON1_TXRTS \<noteq> 0" by (metis le0 mult_0_right add_0)
  from Suc.prems(2) have c0: "\<not> clock h (tick_count h) > T" by (metis zero_less_Suc add_0_right)
  have a: "\<forall>j\<le>k. rx ?h (2 * j + 1) AND ECON1_TXRTS \<noteq> 0"
  proof (intro allI impI)
    fix j assume "j \<le> k"
    then have "rx h (2 * Suc j + 1) AND ECON1_TXRTS \<noteq> 0" using Suc.prems(1) by (metis Suc_le_mono)
    then show "rx ?h (2 * j + 1) AND ECON1_TXRTS \<noteq> 0" by (simp add: add.commute)
  qed
  have b: "\<forall>j<k. \<not> clock ?h (tick_count ?h + j) > T"
  proof (intro allI impI)
    fix j assume "j < k"
    then have "\<not> clock h (tick_count h + Suc j) > T" using Suc.prems(2) by (metis Suc_less_eq)
    then show "\<not> clock ?h (tick_count ?h + j) > T" by simp
  qed
  have c: "clock ?h (tick_count ?h + k) > T" using Suc.prems(3) by simp
  have "send_wait_tx e T h = send_wait_tx e T ?h"
    using r0 c0 by (subst send_wait_tx.simps) (simp add: readReg_ECON1 GetTick_after word_greater_zero_iff)
  also have "\<dots> = Some (True, hal_after (concat (replicate (Suc k) (xfer e [0x1f, 0]))) (2 * Suc k) (Suc k) ?h)"
    by (rule Suc.IH [OF a b c])
  also have "\<dots> = Some (True, hal_after (concat (replicate (Suc (Suc k)) (xfer e [0x1f, 0])))
                       (2 * Suc (Suc k)) (Suc (Suc k)) h)"
    by simp
  finally show ?case .
qed

lemma send_wait_tx_clear:
  assumes "\<forall>j<k. rx h (2 * j + 1) AND ECON1_TXRTS \<noteq> 0"
    and "\<forall>j<k. \<not> clock h (tick_count h + j) > T"
    and "rx h (2 * k + 1) AND ECON1_TXRTS = 0"
  shows "send_wait_tx e T h =
           Some (False, hal_after (concat (replicate (Suc k) (xfer e [0x1f, 0]))) (2 * Suc k) k h)"
  using assms
proof (induction k arbitrary: h)
  case 0
  then show ?case
    by (subst send_wait_tx.simps) (simp add: readReg_ECON1 GetTick_after)
next
  case (Suc k)
  let ?h = "hal_after (xfer e [0x1f, 0]) 2 1 h"
  from Suc.prems(1) have r0: "rx h 1 AND ECON1_TXRTS \<noteq> 0" by (metis zero_less_Suc mult_0_right add_0)
  from Suc.prems(2) have c0: "\<not> clock h (tick_count h) > T" by (metis zero_less_Suc add_0_right)
  have a: "\<forall>j<k. rx ?h (2 * j + 1) AND ECON1_TXRTS \<noteq> 0"
  proof (intro allI impI)
    fix j assume "j < k"
    then have "rx h (2 * Suc j + 1) AND ECON1_TXRTS \<noteq> 0" using Suc.prems(1) by (metis Suc_less_eq)
    then show "rx ?h (2 * j + 1) AND ECON1_TXRTS \<noteq> 0" by (simp add: add.commute)
  qed
  have b: "\<forall>j<k. \<not> clock ?h (tick_count ?h + j) > T"
  proof (intro allI impI)
    fix j assume "j < k"
    then have "\<not> clock h (tick_count h + Suc j) > T" using Suc.prems(2) by (metis Suc_less_eq)
    then show "\<not> clock ?h (tick_count ?h + j) > T" by simp
  qed
  have c: "rx ?h (2 * k + 1) AND ECON1_TXRTS = 0" using Suc.prems(3) by (simp add: add.commute)
  have "send_wait_tx e T h = send_wait_tx e T ?h"
    using r0 c0 by (subst send_wait_tx.simps) (simp add: readReg_ECON1 GetTick_after word_greater_zero_iff)
  also have "\<dots> = Some (False, hal_after (concat (replicate (Suc k) (xfer e [0x1f, 0]))) (2 * Suc k) k ?h)"
    by (rule Suc.IH [OF a b c])
  also have "\<dots> = Some (False, hal_after (concat (replicate (Suc (Suc k)) (xfer e [0x1f, 0])))
                       (2 * Suc (Suc k)) (Suc k) h)"
    by simp
  finally show ?case .
qed

lemma isMacMiiReg_bank0 [simp]: "\<not> ENC28J60_isMacMiiReg (e\<lparr>bank := ERXTX_BANK\<rparr>) reg"
  by (simp add: ENC28J60_isMacMiiReg_def reg_defs)

lemma isMacMiiReg_bank1 [simp]: "\<not> ENC28J60_isMacMiiReg (e\<lparr>bank := EPKTCNT_BANK\<rparr>) reg"
  by (simp add: ENC28J60_isMacMiiReg_def reg_defs)

lemma receive_idle:
  "rx h 5 = 0 \<Longrightarrow> ENC28J60_receive e buffer bufsize h =
     (0, e\<lparr>bank := EPKTCNT_BANK\<rparr>, buffer,
      hal_after (xfer e [0x1f, 0] @ xfer e [0x5f, (rx h 1 AND 0xfc) OR 0x01] @ xfer e [0x19, 0]) 6 0 h)"
  by (simp add: ENC28J60_receive_def setRegBank_after readReg_after)
     (simp add: reg_defs)

lemma rx_len_bound: "0 \<le> rx_len h \<and> rx_len h \<le> 0xffff"
proof -
  have "uint (rx h 17) < 256" "uint (rx h 15) < 256" "0 \<le> uint (rx h 17)" "0 \<le> uint (rx h 15)"
    using uint_lt2p [of "rx h 17"] uint_lt2p [of "rx h 15"] by simp_all
  then show ?thesis by (simp add: rx_len_def push_bit_eq_mult)
qed

lemma rx_next_bound: "0 \<le> rx_next h \<and> rx_next h \<le> 0xffff"
proof -
  have "uint (rx h 13) < 256" "uint (rx h 11) < 256" "0 \<le> uint (rx h 13)" "0 \<le> uint (rx h 11)"
    using uint_lt2p [of "rx h 13"] uint_lt2p [of "rx h 11"] by simp_all
  then show ?thesis by (simp add: rx_next_def push_bit_eq_mult)
qed

lemma receive_pending:
  assumes "rx_pktcnt h \<noteq> 0"
  shows "ENC28J60_receive e buffer bufsize h =
     (if rx_len h \<le> uint bufsize
      then (rx_len h,
            e\<lparr>bank := ERXTX_BANK, receivedPackets := receivedPackets e + 1\<rparr>,
            map (\<lambda>j. if j < nat (rx_len h) then rx h (23 + j) else buffer ! j) [0..<length buffer],
            hal_after
              (receive_prologue e h
               @ xfer e (0x3a # replicate (nat (rx_len h)) 0)
               @ (if rx_len h mod 2 \<noteq> 0 then xfer e [0x3a, 0] else [])
               @ write16_events e ERXRDPTL
                   (word_of_int (if rx_next h = RX_BUF_START then RX_BUF_END else rx_next h - 1))
               @ xfer e [0x9e, 0x40])
              (29 + nat (rx_len h) + (if rx_len h mod 2 \<noteq> 0 then 2 else 0)) 0 h)
      else (0,
            e\<lparr>bank := ERXTX_BANK\<rparr>,
            buffer,
            hal_after
              (receive_prologue e h
               @ concat (replicate (nat (rx_len h)) (xfer e [0x3a, 0]))
               @ (if rx_len h mod 2 \<noteq> 0 then xfer e [0x3a, 0] else [])
               @ write16_events e ERXRDPTL
                   (word_of_int (if rx_next h = RX_BUF_START then RX_BUF_END else rx_next h - 1))
               @ xfer e [0x9e, 0x40])
              (28 + 2 * nat (rx_len h) + (if rx_len h mod 2 \<noteq> 0 then 2 else 0)) 0 h))"
proof -
  define e1 where "e1 = e\<lparr>bank := EPKTCNT_BANK\<rparr>"
  define e2 where "e2 = e\<lparr>bank := ERXTX_BANK\<rparr>"
  define h2 where "h2 = hal_after (xfer e [0x1f, 0] @ xfer e [0x5f, (rx h 1 AND 0xfc) OR 0x01]
                                   @ xfer e [0x19, 0]) 6 0 h"
  define h9 where "h9 = hal_after (receive_prologue e h) 22 0 h"
  define len where "len = rx_len h"
  define ptr :: u16 where
    "ptr = word_of_int (if rx_next h = RX_BUF_START then RX_BUF_END else rx_next h - 1)"
  define pad where "pad = (if len mod 2 \<noteq> 0 then xfer e [0x3a, 0] else [])"
  define padn :: nat where "padn = (if len mod 2 \<noteq> 0 then 2 else 0)"
  define tail where "tail = write16_events e ERXRDPTL ptr @ xfer e [0x9e, 0x40]"
  have six: "\<And>xs :: hal_event list. concat (replicate 6 xs) = xs @ xs @ xs @ xs @ xs @ xs"
    by (simp add: eval_nat_numeral)
  have len0: "0 \<le> len" using rx_len_bound by (simp add: len_def)
  have n: "uint (rx h 5) \<noteq> 0" using assms by (simp add: rx_pktcnt_def uint_0_iff)
  have s1: "ENC28J60_setRegBank e EPKTCNT_BANK h =
              (e1, hal_after (xfer e [0x1f, 0] @ xfer e [0x5f, (rx h 1 AND 0xfc) OR 0x01]) 4 0 h)"
    by (simp add: setRegBank_after e1_def) (simp add: EPKTCNT_BANK_def)
  have s2: "ENC28J60_readReg e1
              EPKTCNT (hal_after (xfer e [0x1f, 0] @ xfer e [0x5f, (rx h 1 AND 0xfc) OR 0x01]) 4 0 h) =
              (rx h 5, h2)"
    by (simp add: readReg_after e1_def h2_def) (simp add: EPKTCNT_def)
  have s3: "ENC28J60_setRegBank e1 ERXTX_BANK h2 =
              (e2, hal_after (xfer e [0x1f, 0] @ xfer e [0x5f, rx h 7 AND 0xfc]) 4 0 h2)"
    by (simp add: setRegBank_after e1_def e2_def h2_def) (simp add: ERXTX_BANK_def)
  have rd: "\<And>w. ENC28J60_readDataByte e2 w = (rx w 1, hal_after (xfer e [0x3a, 0]) 2 0 w)"
    by (simp add: readDataByte_after e2_def)
  have desc: "hal_after (xfer e [0x3a, 0]) 2 0 (hal_after (xfer e [0x3a, 0]) 2 0
               (hal_after (xfer e [0x3a, 0]) 2 0 (hal_after (xfer e [0x3a, 0]) 2 0
               (hal_after (xfer e [0x3a, 0]) 2 0 (hal_after (xfer e [0x3a, 0]) 2 0
               (hal_after (xfer e [0x1f, 0] @ xfer e [0x5f, rx h 7 AND 0xfc]) 4 0 h2)))))) = h9"
    by (simp add: h2_def h9_def receive_prologue_def six)
  have v: "rx (hal_after (xfer e [0x3a, 0]) 2 0 (hal_after (xfer e [0x3a, 0]) 2 0
               (hal_after (xfer e [0x3a, 0]) 2 0
               (hal_after (xfer e [0x1f, 0] @ xfer e [0x5f, rx h 7 AND 0xfc]) 4 0 h2)))) 1 = rx h 17"
          "rx (hal_after (xfer e [0x3a, 0]) 2 0 (hal_after (xfer e [0x3a, 0]) 2 0
               (hal_after (xfer e [0x1f, 0] @ xfer e [0x5f, rx h 7 AND 0xfc]) 4 0 h2))) 1 = rx h 15"
          "rx (hal_after (xfer e [0x3a, 0]) 2 0
               (hal_after (xfer e [0x1f, 0] @ xfer e [0x5f, rx h 7 AND 0xfc]) 4 0 h2)) 1 = rx h 13"
          "rx (hal_after (xfer e [0x1f, 0] @ xfer e [0x5f, rx h 7 AND 0xfc]) 4 0 h2) 1 = rx h 11"
    by (simp_all add: h2_def)
  have copy: "ENC28J60_readData e2 buffer len h9 =
                (len, map (\<lambda>j. if j < nat len then rx h (23 + j) else buffer ! j) [0..<length buffer],
                 hal_after (xfer e (0x3a # replicate (nat len) 0)) (1 + nat len) 0 h9)"
    using len0 by (simp add: readData_after e2_def h9_def)
  have flush: "flush_loop e2 len 0 h9 =
                 hal_after (concat (replicate (nat len) (xfer e [0x3a, 0]))) (2 * nat len) 0 h9"
    by (simp add: flush_loop_after e2_def)
  have fin: "\<And>w. ENC28J60_setRegBitField e2 ECON2 ECON2_PKTDEC (ENC28J60_writeReg16 e2 ERXRDPTL ptr w) =
                hal_after tail 6 0 w"
    by (simp add: setRegBitField_after writeReg16_after e2_def tail_def write16_events_def)
       (simp add: reg_defs)
  have body: "ENC28J60_receive e buffer bufsize h =
     (if len \<le> uint bufsize
      then (len, e2\<lparr>receivedPackets := receivedPackets e2 + 1\<rparr>,
            map (\<lambda>j. if j < nat len then rx h (23 + j) else buffer ! j) [0..<length buffer],
            hal_after tail 6 0 (hal_after pad padn 0
              (hal_after (xfer e (0x3a # replicate (nat len) 0)) (1 + nat len) 0 h9)))
      else (0, e2, buffer,
            hal_after tail 6 0 (hal_after pad padn 0
              (hal_after (concat (replicate (nat len) (xfer e [0x3a, 0]))) (2 * nat len) 0 h9))))"
    unfolding ENC28J60_receive_def s1 prod.case s2 Let_def s3 rd v desc
      rx_len_def [symmetric] rx_next_def [symmetric] len_def [symmetric] ptr_def [symmetric]
    using n by (simp add: copy flush fin pad_def padn_def del: hal_after_after)
  show ?thesis
    unfolding body
    by (simp add: h9_def e2_def len_def ptr_def pad_def padn_def tail_def)
qed

lemma fill_prefix:
  assumes "n \<le> length b"
  shows "map (\<lambda>j. if j < n then f j else b ! j) [0..<length b] = map f [0..<n] @ drop n b"
proof (rule nth_equalityI)
  show "length (map (\<lambda>j. if j < n then f j else b ! j) [0..<length b]) = length (map f [0..<n] @ drop n b)"
    using assms by simp
next
  fix i
  assume "i < length (map (\<lambda>j. if j < n then f j else b ! j) [0..<length b])"
  then have i: "i < length b" by simp
  show "map (\<lambda>j. if j < n then f j else b ! j) [0..<length b] ! i = (map f [0..<n] @ drop n b) ! i"
  proof (cases "i < n")
    case True
    with i show ?thesis by (simp add: nth_append)
  next
    case False
    with i assms show ?thesis by (simp add: nth_append)
  qed
qed

lemma rx_next_ptr:
  "uint (word_of_int (if rx_next h = 0x0000 then 0x0fff else rx_next h - 1) :: u16) =
     (if rx_next h = 0x0000 then 0x0fff else rx_next h - 1)"
proof -
  have "0 \<le> (if rx_next h = 0x0000 then 0x0fff else rx_next h - 1)"
       "(if rx_next h = 0x0000 then 0x0fff else rx_next h - 1) < 65536"
    using rx_next_bound [of h] by auto
  then show ?thesis
    by (simp only: uint_word_of_int take_bit_int_eq_self_iff [THEN iffD2] len_of_numeral_defs)
       (simp add: take_bit_int_eq_self)
qed

lemma frame_world_rx:
  "rx_pktcnt frame_world = 1" "rx_next frame_world = 0x10" "rx_len frame_world = 3"
  "trace frame_world = []"
  "rx frame_world 23 = 0xaa" "rx frame_world 24 = 0xbb" "rx frame_world 25 = 0xcc"
  by (simp_all add: frame_world_def world_def rx_pktcnt_def rx_next_def rx_len_def rx_def)

subsection \<open>Reset, setup and send\<close>

lemma extends_refl [simp]: "extends h h"
  unfolding extends_def by (rule exI [of _ "[]"], rule exI [of _ 0], rule exI [of _ 0]) simp

lemma extends_after [simp]: "extends h (hal_after evs n m h)"
  unfolding extends_def by blast

lemma extends_trans: "extends h h' \<Longrightarrow> extends h' h'' \<Longrightarrow> extends h h''"
  unfolding extends_def by (metis hal_after_after)

lemma reset_wait_ost_extends_aux:
  assumes "reset_wait_ost e T h = Some y"
  shows "extends h (snd y)"
proof (rule reset_wait_ost.raw_induct [where P = "\<lambda>e T h y. extends h (snd y)", OF _ assms])
  fix f :: "'a ENC28J60 \<Rightarrow> u32 \<Rightarrow> hal \<Rightarrow> (bool \<times> hal) option" and e T h y
  assume IH: "\<And>e T h y. f e T h = Some y \<Longrightarrow> extends h (snd y)"
    and body: "(case ENC28J60_readReg e ESTAT h of
       (r, h1) \<Rightarrow>
         if r AND ESTAT_CLKRDY = 0
         then case HAL_GetTick h1 of
              (t, h2) \<Rightarrow> if T < t then Some (True, h2) else f e T h2
         else Some (False, h1)) = Some y"
  show "extends h (snd y)"
  proof (cases "rx h 1 AND ESTAT_CLKRDY = 0")
    case False
    with body have "y = (False, hal_after (xfer e [0x1d, 0]) 2 0 h)"
      by (simp add: readReg_ESTAT)
    then show ?thesis by simp
  next
    case True
    show ?thesis
    proof (cases "T < clock h (tick_count h)")
      case t: True
      with True body have "y = (True, hal_after (xfer e [0x1d, 0]) 2 1 h)"
        by (simp add: readReg_ESTAT GetTick_after)
      then show ?thesis by simp
    next
      case f: False
      with True body have "f e T (hal_after (xfer e [0x1d, 0]) 2 1 h) = Some y"
        by (simp add: readReg_ESTAT GetTick_after)
      then have "extends (hal_after (xfer e [0x1d, 0]) 2 1 h) (snd y)" by (rule IH)
      then show ?thesis by (rule extends_trans [OF extends_after])
    qed
  qed
qed

lemma reset_wait_ost_extends:
  "reset_wait_ost e T h = Some (b, h') \<Longrightarrow> extends h h'"
  using reset_wait_ost_extends_aux [of e T h "(b, h')"] by simp

lemma isMacMiiReg_bank2 [simp]:
  "ENC28J60_isMacMiiReg (e\<lparr>bank := MACONX_BANK\<rparr>) reg \<longleftrightarrow> reg < EIE"
  by (simp add: ENC28J60_isMacMiiReg_def reg_defs)

lemma isMacMiiReg_bank3_ECON2 [simp]:
  "\<not> ENC28J60_isMacMiiReg (e\<lparr>bank := MAADRX_BANK\<rparr>) ECON2"
  by (simp add: ENC28J60_isMacMiiReg_def reg_defs)

lemma reset_configure_extends:
  "fst (reset_configure e h) = e\<lparr>bank := MAADRX_BANK\<rparr> \<and> extends h (snd (reset_configure e h))"
  by (simp add: reset_configure_def setRegBank_after writeReg16_after writeReg_after
      setRegBitField_after MACON1_def MACON3_def EIE_def)

lemma reset_timeout_aux:
  assumes "\<forall>j\<le>k. \<not> osc_ready h j" and "\<forall>j<k. \<not> deadline_passed h j" and "deadline_passed h k"
  shows "ENC28J60_reset e h =
           Some (1, e, hal_after (reset_pulse e @ concat (replicate (Suc k) (xfer e [0x1d, 0])))
                        (2 * Suc k) (k + 2) h)"
proof -
  let ?h6 = "hal_after (reset_pulse e) 0 1 h"
  let ?T = "clock h (tick_count h) + 5000"
  have a: "\<forall>j\<le>k. rx ?h6 (2 * j + 1) AND ESTAT_CLKRDY = 0"
    using assms(1) by (simp add: osc_ready_def)
  have b: "\<forall>j<k. \<not> clock ?h6 (tick_count ?h6 + j) > ?T"
    using assms(2) by (simp add: deadline_passed_def)
  have c: "clock ?h6 (tick_count ?h6 + k) > ?T"
    using assms(3) by (simp add: deadline_passed_def)
  have pre: "sleep_ms 2 (sleep_ms 2 (ENC28J60_resetDeassert e (sleep_ms 2 (ENC28J60_resetAssert e h)))) =
               hal_after (reset_pulse e) 0 0 h"
    by (simp add: sleep_ms_def ENC28J60_resetAssert_def ENC28J60_resetDeassert_def
        HAL_GPIO_WritePin_def hal_after_def reset_pulse_def)
  have g: "HAL_GetTick (hal_after (reset_pulse e) 0 0 h) = (clock h (tick_count h), ?h6)"
    by (simp add: GetTick_after)
  show ?thesis
    unfolding ENC28J60_reset_def Let_def pre g prod.case reset_wait_ost_timeout [OF a b c]
    by simp
qed

lemma reset_ready_aux:
  assumes "\<forall>j<k. \<not> osc_ready h j" and "\<forall>j<k. \<not> deadline_passed h j" and "osc_ready h k"
  shows "ENC28J60_reset e h =
           Some (0, e\<lparr>bank := MAADRX_BANK\<rparr>,
                 snd (reset_configure e
                   (hal_after (reset_pulse e @ concat (replicate (Suc k) (xfer e [0x1d, 0])))
                      (2 * Suc k) (k + 1) h)))"
proof -
  let ?h6 = "hal_after (reset_pulse e) 0 1 h"
  let ?T = "clock h (tick_count h) + 5000"
  have a: "\<forall>j<k. rx ?h6 (2 * j + 1) AND ESTAT_CLKRDY = 0"
    using assms(1) by (simp add: osc_ready_def)
  have b: "\<forall>j<k. \<not> clock ?h6 (tick_count ?h6 + j) > ?T"
    using assms(2) by (simp add: deadline_passed_def)
  have c: "rx ?h6 (2 * k + 1) AND ESTAT_CLKRDY \<noteq> 0"
    using assms(3) by (simp add: osc_ready_def)
  have pre: "sleep_ms 2 (sleep_ms 2 (ENC28J60_resetDeassert e (sleep_ms 2 (ENC28J60_resetAssert e h)))) =
               hal_after (reset_pulse e) 0 0 h"
    by (simp add: sleep_ms_def ENC28J60_resetAssert_def ENC28J60_resetDeassert_def
        HAL_GPIO_WritePin_def hal_after_def reset_pulse_def)
  have cfg: "\<And>w. reset_configure e w = (e\<lparr>bank := MAADRX_BANK\<rparr>, snd (reset_configure e w))"
    using reset_configure_extends [of e] by (metis prod.collapse)
  have g: "HAL_GetTick (hal_after (reset_pulse e) 0 0 h) = (clock h (tick_count h), ?h6)"
    by (simp add: GetTick_after)
  show ?thesis
    unfolding ENC28J60_reset_def Let_def pre g prod.case reset_wait_ost_ready [OF a b c]
    by (subst cfg) simp
qed

lemma reset_extends:
  assumes "ENC28J60_reset e h = Some (r, e', h')"
  shows "\<exists>evs n m. h' = hal_after (reset_pulse e @ evs) n m h"
proof -
  let ?h6 = "hal_after (reset_pulse e) 0 1 h"
  let ?T = "clock h (tick_count h) + 5000"
  have pre: "sleep_ms 2 (sleep_ms 2 (ENC28J60_resetDeassert e (sleep_ms 2 (ENC28J60_resetAssert e h)))) =
               hal_after (reset_pulse e) 0 0 h"
    by (simp add: sleep_ms_def ENC28J60_resetAssert_def ENC28J60_resetDeassert_def
        HAL_GPIO_WritePin_def hal_after_def reset_pulse_def)
  have g: "HAL_GetTick (hal_after (reset_pulse e) 0 0 h) = (clock h (tick_count h), ?h6)"
    by (simp add: GetTick_after)
  from assms have r: "(case reset_wait_ost e ?T ?h6 of
           None \<Rightarrow> None
         | Some (True, h7) \<Rightarrow> Some (1, e, h7)
         | Some (False, h7) \<Rightarrow> (case reset_configure e h7 of (e4, h29) \<Rightarrow> Some (0, e4, h29))) =
         Some (r, e', h')"
    unfolding ENC28J60_reset_def Let_def pre g prod.case by simp
  then obtain b h7 where w: "reset_wait_ost e ?T ?h6 = Some (b, h7)"
    by (cases "reset_wait_ost e ?T ?h6") auto
  then have e7: "extends ?h6 h7" by (rule reset_wait_ost_extends)
  have "extends h7 h'"
  proof (cases b)
    case True
    with r w show ?thesis by simp
  next
    case False
    with r w have "h' = snd (reset_configure e h7)" by (auto split: prod.splits)
    then show ?thesis using reset_configure_extends [of e h7] by simp
  qed
  with e7 have "extends ?h6 h'" by (rule extends_trans)
  then obtain evs n m where "h' = hal_after evs n m ?h6" unfolding extends_def by blast
  then have "h' = hal_after (reset_pulse e @ evs) n (1 + m) h" by simp
  then show ?thesis by blast
qed

lemma reset_pulse_upd [simp]:
  "reset_pulse (e\<lparr>watchDogTimer := tm\<rparr>) = reset_pulse e"
  "reset_pulse (e\<lparr>bank := b\<rparr>) = reset_pulse e"
  by (simp_all add: reset_pulse_def)

lemma reset_returns:
  assumes "\<forall>j<k. \<not> osc_ready h j \<and> \<not> deadline_passed h j"
    and "osc_ready h k \<or> deadline_passed h k"
  shows "\<exists>r e' h'. ENC28J60_reset e h = Some (r, e', h')"
proof (cases "osc_ready h k")
  case True
  with assms(1) show ?thesis using reset_ready_aux [of k h e] by simp
next
  case False
  with assms have "\<forall>j\<le>k. \<not> osc_ready h j" "\<forall>j<k. \<not> deadline_passed h j" "deadline_passed h k"
    by (auto simp: le_less)
  then show ?thesis using reset_timeout_aux [of k h e] by simp
qed

lemma tick_elapsed_aux:
  assumes "pe (watchDogTimer e) h = (True, tm, h1)"
  shows "ENC28J60_tick pe e h =
           (if sint (receivedPackets e) \<le> sint (sentPackets e)
            then (case ENC28J60_reset (e\<lparr>watchDogTimer := tm\<rparr>) h1 of
                    None \<Rightarrow> None
                  | Some (r, e2, h2) \<Rightarrow> Some (e2\<lparr>receivedPackets := 0, sentPackets := 0\<rparr>, h2))
            else Some (e\<lparr>watchDogTimer := tm, receivedPackets := 0, sentPackets := 0\<rparr>, h1))"
  by (simp add: ENC28J60_tick_def assms split: option.splits)

lemma reset_pulse_not_Nil [simp]: "reset_pulse e \<noteq> []"
  by (simp add: reset_pulse_def)

lemma ready_world:
  "osc_ready (world [0, 1] 10) 0" "trace (world [0, 1] 10) = []"
  by (simp_all add: osc_ready_def rx_def world_def ESTAT_CLKRDY_def)

lemma setup_retry_success:
  assumes "setup_retry e h = Some y"
  shows "\<exists>e'' h''. ENC28J60_reset e'' h'' = Some (0, fst y, snd y)"
proof (rule setup_retry.raw_induct
    [where P = "\<lambda>e h y. \<exists>e'' h''. ENC28J60_reset e'' h'' = Some (0, fst y, snd y)", OF _ assms])
  fix f :: "'a ENC28J60 \<Rightarrow> hal \<Rightarrow> ('a ENC28J60 \<times> hal) option" and e h y
  assume IH: "\<And>e h y. f e h = Some y \<Longrightarrow> \<exists>e'' h''. ENC28J60_reset e'' h'' = Some (0, fst y, snd y)"
    and body: "(case ENC28J60_reset e h of None \<Rightarrow> None
      | Some (r, e1, h1) \<Rightarrow> if r \<noteq> 0 then f e1 h1 else Some (e1, h1)) = Some y"
  from body obtain r e1 h1 where r: "ENC28J60_reset e h = Some (r, e1, h1)"
    by (cases "ENC28J60_reset e h") auto
  show "\<exists>e'' h''. ENC28J60_reset e'' h'' = Some (0, fst y, snd y)"
  proof (cases "r = 0")
    case True
    with body r have "y = (e1, h1)" by simp
    with r True show ?thesis by auto
  next
    case False
    with body r have "f e1 h1 = Some y" by simp
    then show ?thesis by (rule IH)
  qed
qed

lemma bus_only_Nil [simp]: "bus_only e []"
  by (simp add: bus_only_def)

lemma bus_only_append [simp]: "bus_only e (xs @ ys) \<longleftrightarrow> bus_only e xs \<and> bus_only e ys"
  by (auto simp: bus_only_def)

lemma bus_only_xfer [simp]: "bus_only e (xfer e bs)"
  by (auto simp: bus_only_def xfer_def)

lemma bus_only_concat_replicate [simp]: "bus_only e xs \<Longrightarrow> bus_only e (concat (replicate n xs))"
  by (induction n) simp_all

lemma bus_only_write16 [simp]: "bus_only e (write16_events e reg v)"
  by (simp add: write16_events_def)

lemma bus_only_send_prologue [simp]: "bus_only e (send_prologue e data datalen h)"
  by (simp add: send_prologue_def)

lemma bus_only_no_reset_pulse: "bus_only e evs \<Longrightarrow> evs \<noteq> a @ reset_pulse e' @ b"
  by (auto simp: bus_only_def reset_pulse_def)

lemma send_prologue_after:
  "ENC28J60_setRegBitField (e\<lparr>bank := ERXTX_BANK\<rparr>) ECON1 ECON1_TXRTS
     (ENC28J60_clearRegBitField (e\<lparr>bank := ERXTX_BANK\<rparr>) EIR EIR_TXIF
       (ENC28J60_writeReg16 (e\<lparr>bank := ERXTX_BANK\<rparr>) ETXNDL (word_of_int (TX_BUF_START + uint datalen))
         (ENC28J60_writeData (e\<lparr>bank := ERXTX_BANK\<rparr>) data (uint datalen)
           (ENC28J60_writeDataByte (e\<lparr>bank := ERXTX_BANK\<rparr>) 0
             (ENC28J60_writeReg16 (e\<lparr>bank := ERXTX_BANK\<rparr>) EWRPTL (word_of_int TX_BUF_START)
               (ENC28J60_writeReg16 (e\<lparr>bank := ERXTX_BANK\<rparr>) ETXSTL (word_of_int TX_BUF_START)
                 (snd (ENC28J60_setRegBank e ERXTX_BANK h)))))))) =
   hal_after (send_prologue e data datalen h) (23 + unat datalen) 0 h"
proof -
  have d: "(word_of_int (TX_BUF_START + uint datalen) :: u16) = 0x1200 + datalen"
    by (simp add: TX_BUF_START_def)
  have t: "(word_of_int TX_BUF_START :: u16) = 0x1200"
    by (simp add: TX_BUF_START_def)
  show ?thesis
    unfolding d t
    by (simp add: setRegBank_after writeReg16_after writeDataByte_after writeData_after
        setRegBitField_after clearRegBitField_after send_prologue_def write16_events_def)
       (simp add: reg_defs)
qed

lemma send_unfold:
  "ENC28J60_send e data datalen h =
     (case send_wait_tx (e\<lparr>bank := ERXTX_BANK\<rparr>) (clock h (tick_count h) + 5000)
             (hal_after (send_prologue e data datalen h) (23 + unat datalen) 1 h) of
        None \<Rightarrow> None
      | Some (True, h10) \<Rightarrow> Some (0, e\<lparr>bank := ERXTX_BANK\<rparr>, h10)
      | Some (False, h10) \<Rightarrow>
          Some (uint datalen, e\<lparr>bank := ERXTX_BANK, sentPackets := sentPackets e + 1\<rparr>, h10))"
proof -
  let ?e1 = "e\<lparr>bank := ERXTX_BANK\<rparr>"
  let ?h8 = "hal_after (send_prologue e data datalen h) (23 + unat datalen) 0 h"
  let ?h9 = "hal_after (send_prologue e data datalen h) (23 + unat datalen) 1 h"
  have sb: "ENC28J60_setRegBank e ERXTX_BANK h = (?e1, snd (ENC28J60_setRegBank e ERXTX_BANK h))"
    by (simp add: setRegBank_after)
  have g: "HAL_GetTick ?h8 = (clock h (tick_count h), ?h9)"
    by (simp add: GetTick_after)
  show ?thesis
    unfolding ENC28J60_send_def
    apply (subst sb)
    unfolding prod.case Let_def send_prologue_after g
    apply (simp split: option.splits prod.splits bool.splits)
    done
qed

lemma send_timeout_aux:
  assumes "\<forall>j\<le>k. tx_busy h datalen j" and "\<forall>j<k. \<not> deadline_passed h j" and "deadline_passed h k"
  shows "ENC28J60_send e data datalen h =
           Some (0, e\<lparr>bank := ERXTX_BANK\<rparr>,
                 hal_after (send_prologue e data datalen h @ concat (replicate (Suc k) (xfer e [0x1f, 0])))
                   (23 + unat datalen + 2 * Suc k) (k + 2) h)"
proof -
  let ?h9 = "hal_after (send_prologue e data datalen h) (23 + unat datalen) 1 h"
  let ?T = "clock h (tick_count h) + 5000"
  have a: "\<forall>j\<le>k. rx ?h9 (2 * j + 1) AND ECON1_TXRTS \<noteq> 0"
    using assms(1) by (simp add: tx_busy_def add.assoc)
  have b: "\<forall>j<k. \<not> clock ?h9 (tick_count ?h9 + j) > ?T"
    using assms(2) by (simp add: deadline_passed_def)
  have c: "clock ?h9 (tick_count ?h9 + k) > ?T"
    using assms(3) by (simp add: deadline_passed_def)
  show ?thesis
    unfolding send_unfold send_wait_tx_timeout [OF a b c]
    by simp
qed

lemma send_done_aux:
  assumes "\<forall>j<k. tx_busy h datalen j \<and> \<not> deadline_passed h j" and "\<not> tx_busy h datalen k"
  shows "ENC28J60_send e data datalen h =
           Some (uint datalen, e\<lparr>bank := ERXTX_BANK, sentPackets := sentPackets e + 1\<rparr>,
                 hal_after (send_prologue e data datalen h @ concat (replicate (Suc k) (xfer e [0x1f, 0])))
                   (23 + unat datalen + 2 * Suc k) (k + 1) h)"
proof -
  let ?h9 = "hal_after (send_prologue e data datalen h) (23 + unat datalen) 1 h"
  let ?T = "clock h (tick_count h) + 5000"
  have a: "\<forall>j<k. rx ?h9 (2 * j + 1) AND ECON1_TXRTS \<noteq> 0"
    using assms(1) by (simp add: tx_busy_def add.assoc)
  have b: "\<forall>j<k. \<not> clock ?h9 (tick_count ?h9 + j) > ?T"
    using assms(1) by (simp add: deadline_passed_def)
  have c: "rx ?h9 (2 * k + 1) AND ECON1_TXRTS = 0"
    using assms(2) by (simp add: tx_busy_def add.assoc)
  show ?thesis
    unfolding send_unfold send_wait_tx_clear [OF a b c]
    by simp
qed

lemma send_wait_tx_hangs_aux:
  assumes "send_wait_tx e T h = Some y"
  shows "\<not> (T = - 1 \<and> (\<forall>n. miso h n AND ECON1_TXRTS \<noteq> 0))"
proof (rule send_wait_tx.raw_induct
    [where P = "\<lambda>e T h y. \<not> (T = - 1 \<and> (\<forall>n. miso h n AND ECON1_TXRTS \<noteq> 0))", OF _ assms])
  fix f :: "'a ENC28J60 \<Rightarrow> u32 \<Rightarrow> hal \<Rightarrow> (bool \<times> hal) option" and e T h y
  assume IH: "\<And>e T h y. f e T h = Some y \<Longrightarrow> \<not> (T = - 1 \<and> (\<forall>n. miso h n AND ECON1_TXRTS \<noteq> 0))"
    and body: "(case ENC28J60_readReg e ECON1 h of
       (r, h1) \<Rightarrow>
         if 0 < r AND ECON1_TXRTS
         then case HAL_GetTick h1 of
              (t, h2) \<Rightarrow> if T < t then Some (True, h2) else f e T h2
         else Some (False, h1)) = Some y"
  show "\<not> (T = - 1 \<and> (\<forall>n. miso h n AND ECON1_TXRTS \<noteq> 0))"
  proof
    assume a: "T = - 1 \<and> (\<forall>n. miso h n AND ECON1_TXRTS \<noteq> 0)"
    then have busy: "0 < rx h 1 AND ECON1_TXRTS"
      by (simp add: rx_def word_greater_zero_iff)
    have never: "\<not> T < clock h (tick_count h)"
      using a by simp
    from body busy never have "f e T (hal_after (xfer e [0x1f, 0]) 2 1 h) = Some y"
      by (simp add: readReg_ECON1 GetTick_after)
    from IH [OF this] a show False by simp
  qed
qed

lemma send_wait_tx_hangs:
  assumes "\<forall>n. miso h n AND ECON1_TXRTS \<noteq> 0"
  shows "send_wait_tx e (- 1) h = None"
proof (cases "send_wait_tx e (- 1) h")
  case None
  then show ?thesis .
next
  case (Some y)
  from send_wait_tx_hangs_aux [OF this] assms show ?thesis by simp
qed

lemma reset_wait_ost_hangs_aux:
  assumes "reset_wait_ost e T h = Some y"
  shows "\<not> (T = - 1 \<and> (\<forall>n. miso h n AND ESTAT_CLKRDY = 0))"
proof (rule reset_wait_ost.raw_induct
    [where P = "\<lambda>e T h y. \<not> (T = - 1 \<and> (\<forall>n. miso h n AND ESTAT_CLKRDY = 0))", OF _ assms])
  fix f :: "'a ENC28J60 \<Rightarrow> u32 \<Rightarrow> hal \<Rightarrow> (bool \<times> hal) option" and e T h y
  assume IH: "\<And>e T h y. f e T h = Some y \<Longrightarrow> \<not> (T = - 1 \<and> (\<forall>n. miso h n AND ESTAT_CLKRDY = 0))"
    and body: "(case ENC28J60_readReg e ESTAT h of
       (r, h1) \<Rightarrow>
         if r AND ESTAT_CLKRDY = 0
         then case HAL_GetTick h1 of
              (t, h2) \<Rightarrow> if T < t then Some (True, h2) else f e T h2
         else Some (False, h1)) = Some y"
  show "\<not> (T = - 1 \<and> (\<forall>n. miso h n AND ESTAT_CLKRDY = 0))"
  proof
    assume a: "T = - 1 \<and> (\<forall>n. miso h n AND ESTAT_CLKRDY = 0)"
    then have busy: "rx h 1 AND ESTAT_CLKRDY = 0"
      by (simp add: rx_def)
    have never: "\<not> T < clock h (tick_count h)"
      using a by simp
    from body busy never have "f e T (hal_after (xfer e [0x1d, 0]) 2 1 h) = Some y"
      by (simp add: readReg_ESTAT GetTick_after)
    from IH [OF this] a show False by simp
  qed
qed

lemma reset_wait_ost_hangs:
  assumes "\<forall>n. miso h n AND ESTAT_CLKRDY = 0"
  shows "reset_wait_ost e (- 1) h = None"
proof (cases "reset_wait_ost e (- 1) h")
  case None
  then show ?thesis .
next
  case (Some y)
  from reset_wait_ost_hangs_aux [OF this] assms show ?thesis by simp
qed

lemma reset_unfold:
  "ENC28J60_reset e h =
     (case reset_wait_ost e (clock h (tick_count h) + 5000) (hal_after (reset_pulse e) 0 1 h) of
        None \<Rightarrow> None
      | Some (True, h7) \<Rightarrow> Some (1, e, h7)
      | Some (False, h7) \<Rightarrow> (case reset_configure e h7 of (e4, h29) \<Rightarrow> Some (0, e4, h29)))"
proof -
  have pre: "sleep_ms 2 (sleep_ms 2 (ENC28J60_resetDeassert e (sleep_ms 2 (ENC28J60_resetAssert e h)))) =
               hal_after (reset_pulse e) 0 0 h"
    by (simp add: sleep_ms_def ENC28J60_resetAssert_def ENC28J60_resetDeassert_def
        HAL_GPIO_WritePin_def hal_after_def reset_pulse_def)
  have g: "HAL_GetTick (hal_after (reset_pulse e) 0 0 h) =
             (clock h (tick_count h), hal_after (reset_pulse e) 0 1 h)"
    by (simp add: GetTick_after)
  show ?thesis
    unfolding ENC28J60_reset_def Let_def pre g prod.case by (rule refl)
qed

lemma late_world_sel:
  "clock (late_world bs fill start) n = start + of_nat n"
  "tick_count (late_world bs fill start) = 0"
  "spi_count (late_world bs fill start) = 0"
  "miso (late_world [] fill start) n = fill"
  by (simp_all add: late_world_def)

section \<open>The claims\<close>

subsection \<open>Register classes and the chip revision\<close>

lemma isMacMiiReg_bank3_EREVID [simp]: "\<not> ENC28J60_isMacMiiReg (e\<lparr>bank := MAADRX_BANK\<rparr>) EREVID"
  by (simp add: ENC28J60_isMacMiiReg_def reg_defs)

text \<open>
  Claim C9. For every raw revision byte read from the revision register,
  \<^verbatim>\<open>_ENC28J60_readRev\<close> reports 1 when the raw value is 2, 7 when it is 6, and every
  other raw value unchanged. The raw value is the byte returned at exchange 5 of the call:
  the call selects the address bank (read and write of ECON1) and reads EREVID.
\<close>

theorem readRev_remap:
  "ENC28J60_readRev e h =
     (if rx h 5 = 2 then 1 else if rx h 5 = 6 then 7 else rx h 5,
      e\<lparr>bank := MAADRX_BANK\<rparr>,
      hal_after (xfer e [0x1f, 0] @ xfer e [0x5f, (rx h 1 AND 0xfc) OR 0x03] @ xfer e [0x12, 0]) 6 0 h)"
  by (simp add: ENC28J60_readRev_def setRegBank_after readReg_after)
     (simp add: reg_defs)

text \<open>
  Claim C5, as amended. The MAC/MII-class predicate depends on the handle only through
  the recorded bank: it holds in the MAC-config bank (2) exactly for the addresses below
  EIE (0x1b), in the address bank (3) exactly for the addresses 0x00 to 0x05, which are
  all six station-address registers MAADR1 to MAADR6, or for MISTAT (0x0a), and in no
  other bank. \<^verbatim>\<open>_ENC28J60_readReg\<close> clocks one dummy byte before the result byte
  exactly when the predicate holds for the recorded bank.
\<close>

theorem isMacMiiReg_classes:
  "(ENC28J60_isMacMiiReg e reg \<longleftrightarrow>
      bank e = 0x02 \<and> reg < 0x1b \<or> bank e = 0x03 \<and> (reg \<le> 0x05 \<or> reg = 0x0a))
   \<and> (reg \<le> 0x05 \<longleftrightarrow> reg \<in> {MAADR1, MAADR2, MAADR3, MAADR4, MAADR5, MAADR6})
   \<and> ENC28J60_readReg e reg h =
       (if ENC28J60_isMacMiiReg e reg
        then (rx h 2, hal_after (xfer e [reg AND 0x1f, 0, 0]) 3 0 h)
        else (rx h 1, hal_after (xfer e [reg AND 0x1f, 0]) 2 0 h))"
proof -
  have a: "ENC28J60_isMacMiiReg e reg \<longleftrightarrow>
      bank e = 0x02 \<and> reg < 0x1b \<or> bank e = 0x03 \<and> (reg \<le> 0x05 \<or> reg = 0x0a)"
    by (simp add: ENC28J60_isMacMiiReg_def reg_defs)
  have "reg \<le> 5 \<longleftrightarrow> reg \<in> {4, 5, 2, 3, 0, 1}"
  proof
    assume "reg \<le> 5"
    then have "unat reg \<le> 5" by (simp add: word_le_nat_alt)
    then have "unat reg \<in> {0, 1, 2, 3, 4, 5}" by auto
    then have "(of_nat (unat reg) :: u8) \<in> of_nat ` {0, 1, 2, 3, 4, 5}" by (rule imageI)
    then show "reg \<in> {4, 5, 2, 3, 0, 1}" by auto
  next
    assume "reg \<in> {4, 5, 2, 3, 0, 1}"
    then show "reg \<le> 5" by auto
  qed
  then have b: "reg \<le> 0x05 \<longleftrightarrow> reg \<in> {MAADR1, MAADR2, MAADR3, MAADR4, MAADR5, MAADR6}"
    by (simp add: reg_defs)
  show ?thesis using a b readReg_after [of e reg h] by simp
qed

text \<open>
  The claim as stated names only two station-address registers. In the address bank the
  predicate holds for MAADR3, which is neither MISTAT nor one of the two lowest-numbered
  (MAADR1, MAADR2) nor one of the two lowest-addressed (MAADR5, MAADR6) station-address
  registers.
\<close>

theorem isMacMiiReg_two_low_counterexample:
  "\<not> (ENC28J60_isMacMiiReg (dev0\<lparr>bank := MAADRX_BANK\<rparr>) MAADR3
        \<longrightarrow> MAADR3 \<in> {MAADR1, MAADR2, MAADR5, MAADR6, MISTAT})"
  by (simp add: ENC28J60_isMacMiiReg_def reg_defs)

theorem isMacMiiReg_classes_witness:
  "ENC28J60_isMacMiiReg (dev0\<lparr>bank := MAADRX_BANK\<rparr>) MAADR4
   \<and> \<not> ENC28J60_isMacMiiReg (dev0\<lparr>bank := MAADRX_BANK\<rparr>) EREVID
   \<and> ENC28J60_readReg (dev0\<lparr>bank := MAADRX_BANK\<rparr>) MAADR4 (world [7, 8, 9] 1)
       = (9, hal_after (xfer dev0 [0x03, 0, 0]) 3 0 (world [7, 8, 9] 1))"
  using isMacMiiReg_classes [of "dev0\<lparr>bank := MAADRX_BANK\<rparr>" MAADR4 "world [7, 8, 9] 1"]
    isMacMiiReg_classes [of "dev0\<lparr>bank := MAADRX_BANK\<rparr>" EREVID "world [7, 8, 9] 1"]
  by (simp add: reg_defs rx_def world_def)

subsection \<open>Receive\<close>

text \<open>
  Claim C8, as amended. When the pending-packet counter read from the chip is zero,
  \<^verbatim>\<open>ENC28J60_receive\<close> returns 0 and leaves the caller's buffer and every field of the
  handle as they were, except the recorded bank, which becomes the packet-count bank. The
  only bus traffic is the bank selection (a read and a write of ECON1) and the read of
  EPKTCNT: no buffer byte is read, the read pointer is not written and the packet counter
  is not decremented.
\<close>

theorem receive_none_pending:
  assumes "rx_pktcnt h = 0"
  shows "ENC28J60_receive e buffer bufsize h =
     (0, e\<lparr>bank := EPKTCNT_BANK\<rparr>, buffer,
      hal_after (xfer e [0x1f, 0] @ xfer e [0x5f, (rx h 1 AND 0xfc) OR 0x01] @ xfer e [0x19, 0]) 6 0 h)"
  using assms by (simp add: receive_idle rx_pktcnt_def)

text \<open>
  The claim as stated says that the handle, the recorded bank included, is unchanged: a
  handle whose recorded bank is 0 comes back with bank 1.
\<close>

theorem receive_none_pending_counterexample:
  "rx_pktcnt (world [] 1) = 0
   \<and> fst (snd (ENC28J60_receive dev0 [0, 0] 2 (world [] 1))) \<noteq> dev0"
proof -
  have a: "rx_pktcnt (world [] 1) = 0" by (simp add: rx_pktcnt_def rx_def world_def)
  have "bank (fst (snd (ENC28J60_receive dev0 [0, 0] 2 (world [] 1)))) = 1"
    using a by (simp add: receive_idle rx_pktcnt_def EPKTCNT_BANK_def)
  moreover have "bank dev0 = 0" by (simp add: dev0_def)
  ultimately have "fst (snd (ENC28J60_receive dev0 [0, 0] 2 (world [] 1))) \<noteq> dev0" by auto
  with a show ?thesis by simp
qed

theorem receive_none_pending_witness:
  "rx_pktcnt (world [] 1) = 0
   \<and> ENC28J60_receive dev0 [0, 0] 2 (world [] 1) =
     (0, dev0\<lparr>bank := 1\<rparr>, [0, 0],
      hal_after (xfer dev0 [0x1f, 0] @ xfer dev0 [0x5f, 0x01] @ xfer dev0 [0x19, 0]) 6 0 (world [] 1))"
proof -
  have a: "rx_pktcnt (world [] 1) = 0" by (simp add: rx_pktcnt_def rx_def world_def)
  show ?thesis
    using a receive_none_pending [OF a, of dev0 "[0, 0]" 2]
    by (simp add: EPKTCNT_BANK_def rx_def world_def)
qed

text \<open>
  Claim C2. For every value of the descriptor's 16-bit next-packet pointer decoded by
  \<^verbatim>\<open>ENC28J60_receive\<close>, the value written to the read-pointer register ERXRDPT
  (ERXRDPTL at 0x0c, then ERXRDPTH) is 0x0fff when the next-pointer is 0x0000 and the
  next-pointer minus one otherwise. It is the only register write between the buffer
  reads and the packet-decrement command that ends the call.
\<close>

theorem receive_read_pointer:
  assumes "rx_pktcnt h \<noteq> 0"
  shows "\<exists>ptr :: u16.
     uint ptr = (if rx_next h = 0x0000 then 0x0fff else rx_next h - 1)
     \<and> trace (snd (snd (snd (ENC28J60_receive e buffer bufsize h)))) =
         trace h @ receive_prologue e h
         @ (if rx_len h \<le> uint bufsize
            then xfer e (0x3a # replicate (nat (rx_len h)) 0)
            else concat (replicate (nat (rx_len h)) (xfer e [0x3a, 0])))
         @ (if rx_len h mod 2 \<noteq> 0 then xfer e [0x3a, 0] else [])
         @ write16_events e 0x0c ptr
         @ xfer e [0x9e, 0x40]"
proof (intro exI conjI)
  show "uint (word_of_int (if rx_next h = 0x0000 then 0x0fff else rx_next h - 1) :: u16) =
          (if rx_next h = 0x0000 then 0x0fff else rx_next h - 1)"
    by (rule rx_next_ptr)
  show "trace (snd (snd (snd (ENC28J60_receive e buffer bufsize h)))) =
         trace h @ receive_prologue e h
         @ (if rx_len h \<le> uint bufsize
            then xfer e (0x3a # replicate (nat (rx_len h)) 0)
            else concat (replicate (nat (rx_len h)) (xfer e [0x3a, 0])))
         @ (if rx_len h mod 2 \<noteq> 0 then xfer e [0x3a, 0] else [])
         @ write16_events e 0x0c (word_of_int (if rx_next h = 0x0000 then 0x0fff else rx_next h - 1))
         @ xfer e [0x9e, 0x40]"
    by (simp add: receive_pending [OF assms] RX_BUF_START_def RX_BUF_END_def ERXRDPTL_def)
qed

theorem receive_read_pointer_witness:
  "rx_pktcnt frame_world \<noteq> 0 \<and> rx_next frame_world = 0x0010
   \<and> (\<exists>ptr :: u16. uint ptr = 0x000f
        \<and> trace (snd (snd (snd (ENC28J60_receive dev0 [0, 0, 0, 0] 4 frame_world)))) =
            receive_prologue dev0 frame_world @ xfer dev0 (0x3a # replicate 3 0) @ xfer dev0 [0x3a, 0]
            @ write16_events dev0 0x0c ptr @ xfer dev0 [0x9e, 0x40])"
proof -
  have a: "rx_pktcnt frame_world \<noteq> 0" by (simp add: frame_world_rx)
  show ?thesis
    using a receive_read_pointer [OF a, of dev0 "[0, 0, 0, 0]" 4]
    by (simp add: frame_world_rx)
qed

text \<open>
  Claim C6. For a received frame whose declared length is odd, \<^verbatim>\<open>ENC28J60_receive\<close>
  reads one extra byte (one buffer-read transaction of one byte) after the payload, on
  the copy path and on the discard path, before the read pointer is written; for an even
  length it reads none. The payload itself is \<open>rx_len h\<close> bytes on both paths.
\<close>

theorem receive_odd_padding:
  assumes "rx_pktcnt h \<noteq> 0"
  shows "\<exists>ptr.
     snd (snd (snd (ENC28J60_receive e buffer bufsize h))) =
       hal_after
         (receive_prologue e h
          @ (if rx_len h \<le> uint bufsize
             then xfer e (0x3a # replicate (nat (rx_len h)) 0)
             else concat (replicate (nat (rx_len h)) (xfer e [0x3a, 0])))
          @ (if odd (rx_len h) then xfer e [0x3a, 0] else [])
          @ write16_events e ERXRDPTL ptr
          @ xfer e [0x9e, 0x40])
         (22 + (if rx_len h \<le> uint bufsize then 1 + nat (rx_len h) else 2 * nat (rx_len h))
          + (if odd (rx_len h) then 2 else 0) + 6) 0 h"
proof -
  have par: "(rx_len h mod 2 \<noteq> 0) = odd (rx_len h)" by presburger
  show ?thesis
    unfolding receive_pending [OF assms] par
    by (rule exI [of _ "word_of_int (if rx_next h = RX_BUF_START then RX_BUF_END else rx_next h - 1)"])
       simp
qed

theorem receive_odd_padding_witness:
  "rx_pktcnt frame_world \<noteq> 0 \<and> odd (rx_len frame_world)
   \<and> (\<exists>ptr. snd (snd (snd (ENC28J60_receive dev0 [0, 0, 0, 0] 4 frame_world))) =
        hal_after
          (receive_prologue dev0 frame_world @ xfer dev0 (0x3a # replicate 3 0) @ xfer dev0 [0x3a, 0]
           @ write16_events dev0 ERXRDPTL ptr @ xfer dev0 [0x9e, 0x40]) 34 0 frame_world)"
proof -
  have a: "rx_pktcnt frame_world \<noteq> 0" by (simp add: frame_world_rx)
  show ?thesis
    using a receive_odd_padding [OF a, of dev0 "[0, 0, 0, 0]" 4]
    by (simp add: frame_world_rx)
qed

text \<open>
  Claim C3. With a packet pending, when the declared length exceeds the caller's capacity
  \<^verbatim>\<open>ENC28J60_receive\<close> reads the declared number of payload bytes one by one and drops
  them, leaves the caller's buffer as it was, still writes the read pointer and issues the
  packet decrement, returns 0 and does not increment the received-packet counter. When
  the capacity is at least the length it reads the declared number of bytes in one
  transaction into the start of the caller's buffer (the rest of the buffer is unchanged),
  increments the received-packet counter and returns the length.
\<close>

theorem receive_copy_or_discard:
  assumes "rx_pktcnt h \<noteq> 0"
  shows "(uint bufsize < rx_len h \<longrightarrow>
           ENC28J60_receive e buffer bufsize h =
             (0, e\<lparr>bank := ERXTX_BANK\<rparr>, buffer,
              hal_after
                (receive_prologue e h
                 @ concat (replicate (nat (rx_len h)) (xfer e [0x3a, 0]))
                 @ (if rx_len h mod 2 \<noteq> 0 then xfer e [0x3a, 0] else [])
                 @ write16_events e ERXRDPTL
                     (word_of_int (if rx_next h = RX_BUF_START then RX_BUF_END else rx_next h - 1))
                 @ xfer e [0x9e, 0x40])
                (28 + 2 * nat (rx_len h) + (if rx_len h mod 2 \<noteq> 0 then 2 else 0)) 0 h))
       \<and> (rx_len h \<le> uint bufsize \<longrightarrow>
           ENC28J60_receive e buffer bufsize h =
             (rx_len h, e\<lparr>bank := ERXTX_BANK, receivedPackets := receivedPackets e + 1\<rparr>,
              map (\<lambda>j. if j < nat (rx_len h) then rx h (23 + j) else buffer ! j) [0..<length buffer],
              hal_after
                (receive_prologue e h
                 @ xfer e (0x3a # replicate (nat (rx_len h)) 0)
                 @ (if rx_len h mod 2 \<noteq> 0 then xfer e [0x3a, 0] else [])
                 @ write16_events e ERXRDPTL
                     (word_of_int (if rx_next h = RX_BUF_START then RX_BUF_END else rx_next h - 1))
                 @ xfer e [0x9e, 0x40])
                (29 + nat (rx_len h) + (if rx_len h mod 2 \<noteq> 0 then 2 else 0)) 0 h))
       \<and> (rx_len h \<le> uint bufsize \<and> unat bufsize \<le> length buffer \<longrightarrow>
           fst (snd (snd (ENC28J60_receive e buffer bufsize h))) =
             map (\<lambda>j. rx h (23 + j)) [0..<nat (rx_len h)] @ drop (nat (rx_len h)) buffer)"
proof (intro conjI impI)
  assume "uint bufsize < rx_len h"
  then show "ENC28J60_receive e buffer bufsize h =
             (0, e\<lparr>bank := ERXTX_BANK\<rparr>, buffer,
              hal_after
                (receive_prologue e h
                 @ concat (replicate (nat (rx_len h)) (xfer e [0x3a, 0]))
                 @ (if rx_len h mod 2 \<noteq> 0 then xfer e [0x3a, 0] else [])
                 @ write16_events e ERXRDPTL
                     (word_of_int (if rx_next h = RX_BUF_START then RX_BUF_END else rx_next h - 1))
                 @ xfer e [0x9e, 0x40])
                (28 + 2 * nat (rx_len h) + (if rx_len h mod 2 \<noteq> 0 then 2 else 0)) 0 h)"
    by (simp only: receive_pending [OF assms]) simp
next
  assume "rx_len h \<le> uint bufsize"
  then show "ENC28J60_receive e buffer bufsize h =
             (rx_len h, e\<lparr>bank := ERXTX_BANK, receivedPackets := receivedPackets e + 1\<rparr>,
              map (\<lambda>j. if j < nat (rx_len h) then rx h (23 + j) else buffer ! j) [0..<length buffer],
              hal_after
                (receive_prologue e h
                 @ xfer e (0x3a # replicate (nat (rx_len h)) 0)
                 @ (if rx_len h mod 2 \<noteq> 0 then xfer e [0x3a, 0] else [])
                 @ write16_events e ERXRDPTL
                     (word_of_int (if rx_next h = RX_BUF_START then RX_BUF_END else rx_next h - 1))
                 @ xfer e [0x9e, 0x40])
                (29 + nat (rx_len h) + (if rx_len h mod 2 \<noteq> 0 then 2 else 0)) 0 h)"
    by (simp only: receive_pending [OF assms]) simp
next
  assume a: "rx_len h \<le> uint bufsize \<and> unat bufsize \<le> length buffer"
  have "uint bufsize = int (unat bufsize)" by simp
  with a have n: "nat (rx_len h) \<le> length buffer" by linarith
  have "map (\<lambda>j. if j < nat (rx_len h) then rx h (23 + j) else buffer ! j) [0..<length buffer] =
        map (\<lambda>j. rx h (23 + j)) [0..<nat (rx_len h)] @ drop (nat (rx_len h)) buffer"
    using n by (rule fill_prefix)
  with a show "fst (snd (snd (ENC28J60_receive e buffer bufsize h))) =
             map (\<lambda>j. rx h (23 + j)) [0..<nat (rx_len h)] @ drop (nat (rx_len h)) buffer"
    by (simp add: receive_pending [OF assms])
qed

theorem receive_copy_or_discard_witness:
  "rx_pktcnt frame_world \<noteq> 0
   \<and> fst (ENC28J60_receive dev0 [0, 0] 2 frame_world) = 0
   \<and> fst (snd (ENC28J60_receive dev0 [0, 0] 2 frame_world)) = dev0
   \<and> fst (snd (snd (ENC28J60_receive dev0 [0, 0] 2 frame_world))) = [0, 0]
   \<and> fst (ENC28J60_receive dev0 [0, 0, 0, 0] 4 frame_world) = 3
   \<and> fst (snd (ENC28J60_receive dev0 [0, 0, 0, 0] 4 frame_world)) = dev0\<lparr>receivedPackets := 1\<rparr>
   \<and> fst (snd (snd (ENC28J60_receive dev0 [0, 0, 0, 0] 4 frame_world))) = [0xaa, 0xbb, 0xcc, 0]"
proof -
  have a: "rx_pktcnt frame_world \<noteq> 0" by (simp add: frame_world_rx)
  have u: "[0..<3] = [0, 1, 2]" by (simp add: upt_rec)
  show ?thesis
    using a receive_copy_or_discard [OF a, of 2 dev0 "[0, 0]"]
      receive_copy_or_discard [OF a, of 4 dev0 "[0, 0, 0, 0]"]
    by (simp add: frame_world_rx u ERXTX_BANK_def dev0_def)
qed

subsection \<open>Send\<close>

text \<open>
  The two exits of the polling loop of \<^verbatim>\<open>ENC28J60_send\<close>. If every poll reads the
  transmit-request bit as set up to the poll after which the deadline test of the code
  holds, the call returns 0, the sent-packet counter is unchanged, and everything the call
  has output is bus traffic of the device: no delay, no write to the reset line, so no
  reset pulse. If a poll reads the bit as clear first, the call increments the sent-packet
  counter and returns the frame length.
\<close>

lemma send_exits:
  "((\<forall>j\<le>k. tx_busy h datalen j) \<and> (\<forall>j<k. \<not> deadline_passed h j) \<and> deadline_passed h k \<longrightarrow>
      ENC28J60_send e data datalen h =
        Some (0, e\<lparr>bank := ERXTX_BANK\<rparr>,
              hal_after (send_prologue e data datalen h @ concat (replicate (Suc k) (xfer e [0x1f, 0])))
                (23 + unat datalen + 2 * Suc k) (k + 2) h))
   \<and> ((\<forall>j<k. tx_busy h datalen j \<and> \<not> deadline_passed h j) \<and> \<not> tx_busy h datalen k \<longrightarrow>
      ENC28J60_send e data datalen h =
        Some (uint datalen, e\<lparr>bank := ERXTX_BANK, sentPackets := sentPackets e + 1\<rparr>,
              hal_after (send_prologue e data datalen h @ concat (replicate (Suc k) (xfer e [0x1f, 0])))
                (23 + unat datalen + 2 * Suc k) (k + 1) h))
   \<and> bus_only e (send_prologue e data datalen h @ concat (replicate (Suc k) (xfer e [0x1f, 0])))
   \<and> (\<forall>a b. send_prologue e data datalen h @ concat (replicate (Suc k) (xfer e [0x1f, 0]))
              \<noteq> a @ reset_pulse e @ b)"
proof (intro conjI impI allI)
  assume "(\<forall>j\<le>k. tx_busy h datalen j) \<and> (\<forall>j<k. \<not> deadline_passed h j) \<and> deadline_passed h k"
  then show "ENC28J60_send e data datalen h =
        Some (0, e\<lparr>bank := ERXTX_BANK\<rparr>,
              hal_after (send_prologue e data datalen h @ concat (replicate (Suc k) (xfer e [0x1f, 0])))
                (23 + unat datalen + 2 * Suc k) (k + 2) h)"
    using send_timeout_aux [of k h datalen e data] by blast
next
  assume "(\<forall>j<k. tx_busy h datalen j \<and> \<not> deadline_passed h j) \<and> \<not> tx_busy h datalen k"
  then show "ENC28J60_send e data datalen h =
        Some (uint datalen, e\<lparr>bank := ERXTX_BANK, sentPackets := sentPackets e + 1\<rparr>,
              hal_after (send_prologue e data datalen h @ concat (replicate (Suc k) (xfer e [0x1f, 0])))
                (23 + unat datalen + 2 * Suc k) (k + 1) h)"
    using send_done_aux [of k h datalen e data] by blast
next
  show b: "bus_only e (send_prologue e data datalen h @ concat (replicate (Suc k) (xfer e [0x1f, 0])))"
    by (simp del: replicate.simps)
  fix a b
  show "send_prologue e data datalen h @ concat (replicate (Suc k) (xfer e [0x1f, 0]))
              \<noteq> a @ reset_pulse e @ b"
    using b by (rule bus_only_no_reset_pulse)
qed

text \<open>
  Claim C4. A call to send in which the transmit-request bit never reads back as cleared
  within the 5 s timeout returns 0, does not increment the sent-packet counter and forces
  no reset; when the bit clears within the timeout, send increments the counter and
  returns the frame length. The code computes the deadline as \<^verbatim>\<open>HAL_GetTick() + 5000\<close> in
  \<^verbatim>\<open>uint32_t\<close> and tests \<^verbatim>\<open>HAL_GetTick() > timeoutTime\<close>, and that is not a 5 s timeout
  when the sum reaches the end of the counter's range. With the clock at 0xFFFFEC77 the
  deadline is 0xFFFFFFFF, which no clock value exceeds: with the bit stuck the call never
  returns. With the clock at 0xFFFFFF00 the deadline wraps to 0x1288: the clock read 1 ms
  later is already greater, and the call returns 0 after its first poll although the bit
  reads as clear at the next poll.
\<close>

theorem send_deadline_wraps:
  "clock (late_world [] 0xff 0xFFFFEC77) 0 + 5000 = 0xFFFFFFFF
   \<and> ENC28J60_send dev0 [1, 2, 3] 3 (late_world [] 0xff 0xFFFFEC77) = None
   \<and> clock (late_world (replicate 28 0xff) 0 0xFFFFFF00) 1
       = clock (late_world (replicate 28 0xff) 0 0xFFFFFF00) 0 + 1
   \<and> \<not> tx_busy (late_world (replicate 28 0xff) 0 0xFFFFFF00) 3 1
   \<and> ENC28J60_send dev0 [1, 2, 3] 3 (late_world (replicate 28 0xff) 0 0xFFFFFF00) =
       Some (0, dev0,
             hal_after (send_prologue dev0 [1, 2, 3] 3 (late_world (replicate 28 0xff) 0 0xFFFFFF00)
                        @ xfer dev0 [0x1f, 0]) 28 2 (late_world (replicate 28 0xff) 0 0xFFFFFF00))"
proof -
  let ?w = "late_world [] 0xff 0xFFFFEC77"
  let ?v = "late_world (replicate 28 0xff) 0 0xFFFFFF00"
  have d0: "dev0\<lparr>bank := ERXTX_BANK\<rparr> = dev0"
    by (simp add: dev0_def ERXTX_BANK_def)
  have T: "clock ?w 0 + 5000 = 0xFFFFFFFF" "clock ?w (tick_count ?w) + 5000 = - 1"
    by (simp_all add: late_world_sel)
  have stuck: "\<forall>n. miso (hal_after (send_prologue dev0 [1, 2, 3] 3 ?w) (23 + unat (3 :: u16)) 1 ?w) n
                 AND ECON1_TXRTS \<noteq> 0"
    by (simp add: late_world_sel ECON1_TXRTS_def)
  have a: "ENC28J60_send dev0 [1, 2, 3] 3 ?w = None"
    unfolding send_unfold T send_wait_tx_hangs [OF stuck] by simp
  have c: "clock ?v 1 = clock ?v 0 + 1"
    by (simp add: late_world_sel)
  have p: "\<forall>j\<le>0. tx_busy ?v 3 j" "\<forall>j<0. \<not> deadline_passed ?v j" "deadline_passed ?v 0"
    "\<not> tx_busy ?v 3 1"
    by (simp_all add: tx_busy_def deadline_passed_def rx_def late_world_def ECON1_TXRTS_def)
  have b: "ENC28J60_send dev0 [1, 2, 3] 3 ?v =
       Some (0, dev0, hal_after (send_prologue dev0 [1, 2, 3] 3 ?v @ xfer dev0 [0x1f, 0]) 28 2 ?v)"
    using send_timeout_aux [OF p(1,2,3), of dev0 "[1, 2, 3]"] by (simp add: d0)
  from T(1) a c p(4) b show ?thesis by simp
qed

subsection \<open>Reset and setup\<close>

text \<open>
  If every poll of \<^verbatim>\<open>_ENC28J60_reset\<close> reads the oscillator-ready bit as clear up to the
  poll after which the deadline test of the code holds, the call returns 1 with the handle
  unchanged, and after the reset pulse its only bus traffic is reads of ESTAT: no register
  is written. \<^verbatim>\<open>ENC28J60_setup\<close> then calls the reset again, with no bound on the number
  of attempts, and returns (with \<^verbatim>\<open>HAL_OK\<close>) only after a reset that returned 0.
\<close>

lemma reset_on_deadline:
  fixes e :: "'t ENC28J60"
  assumes "\<forall>j\<le>k. \<not> osc_ready h j" and "\<forall>j<k. \<not> deadline_passed h j" and "deadline_passed h k"
  shows "ENC28J60_reset e h =
           Some (1, e, hal_after (reset_pulse e @ concat (replicate (Suc k) (xfer e [0x1d, 0])))
                        (2 * Suc k) (k + 2) h)
     \<and> setup_retry e h =
         setup_retry e (hal_after (reset_pulse e @ concat (replicate (Suc k) (xfer e [0x1d, 0])))
                          (2 * Suc k) (k + 2) h)
     \<and> (\<forall>periodicTimer_setup e0 h0 tm.
           periodicTimer_setup (watchDogTimer e0) (30 * 1000) h0 = (tm, h)
           \<and> e = e0\<lparr>bank := ERXTX_BANK, receivedPackets := 0, sentPackets := 0, watchDogTimer := tm\<rparr>
           \<longrightarrow> ENC28J60_setup periodicTimer_setup e0 h0 =
                 (case setup_retry e (hal_after (reset_pulse e @ concat (replicate (Suc k) (xfer e [0x1d, 0])))
                                        (2 * Suc k) (k + 2) h) of
                    None \<Rightarrow> None
                  | Some (e5, h2) \<Rightarrow> Some (HAL_OK, e5, h2)))
     \<and> (\<forall>periodicTimer_setup (e0 :: 't ENC28J60) h0 st e' h'.
           ENC28J60_setup periodicTimer_setup e0 h0 = Some (st, e', h')
           \<longrightarrow> st = HAL_OK \<and> (\<exists>e'' h''. ENC28J60_reset e'' h'' = Some (0, e', h')))"
proof -
  let ?h' = "hal_after (reset_pulse e @ concat (replicate (Suc k) (xfer e [0x1d, 0]))) (2 * Suc k) (k + 2) h"
  have r: "ENC28J60_reset e h = Some (1, e, ?h')"
    by (rule reset_timeout_aux [OF assms])
  have s: "setup_retry e h = setup_retry e ?h'"
    by (subst setup_retry.simps) (simp add: r)
  have t: "\<forall>periodicTimer_setup e0 h0 tm.
           periodicTimer_setup (watchDogTimer e0) (30 * 1000) h0 = (tm, h)
           \<and> e = e0\<lparr>bank := ERXTX_BANK, receivedPackets := 0, sentPackets := 0, watchDogTimer := tm\<rparr>
           \<longrightarrow> ENC28J60_setup periodicTimer_setup e0 h0 =
                 (case setup_retry e ?h' of None \<Rightarrow> None | Some (e5, h2) \<Rightarrow> Some (HAL_OK, e5, h2))"
    using s by (auto simp: ENC28J60_setup_def Let_def)
  have u: "\<forall>periodicTimer_setup (e0 :: 't ENC28J60) h0 st e' h'.
           ENC28J60_setup periodicTimer_setup e0 h0 = Some (st, e', h')
           \<longrightarrow> st = HAL_OK \<and> (\<exists>e'' h''. ENC28J60_reset e'' h'' = Some (0, e', h'))"
  proof (intro allI impI)
    fix ps :: "'t \<Rightarrow> u32 \<Rightarrow> hal \<Rightarrow> 't \<times> hal" and e0 h0 st e' h'
    assume a: "ENC28J60_setup ps e0 h0 = Some (st, e', h')"
    obtain tm h1 where p: "ps (watchDogTimer e0) (30 * 1000) h0 = (tm, h1)"
      by (cases "ps (watchDogTimer e0) (30 * 1000) h0") auto
    let ?e4 = "e0\<lparr>bank := ERXTX_BANK, receivedPackets := 0, sentPackets := 0, watchDogTimer := tm\<rparr>"
    from a p have "st = HAL_OK \<and> setup_retry ?e4 h1 = Some (e', h')"
      by (auto simp: ENC28J60_setup_def Let_def split: option.splits)
    then show "st = HAL_OK \<and> (\<exists>e'' h''. ENC28J60_reset e'' h'' = Some (0, e', h'))"
      using setup_retry_success [of ?e4 h1 "(e', h')"] by simp
  qed
  from r s t u show ?thesis by blast
qed

text \<open>
  Claim C7. If the oscillator-ready bit never reads as set within the 5 s wall-clock
  timeout, the reset returns a failure code without writing any further register, and
  the setup routine retries the reset until it succeeds. The deadline is computed and
  tested as in send. With the clock at 0xFFFFEC77 the deadline is 0xFFFFFFFF, which no
  clock value exceeds: with the oscillator never ready the reset never returns, and
  neither does the setup, so there is no failure code and no retry. With the clock at
  0xFFFFFF00 the deadline wraps to 0x1288 and the reset returns 1 after its first poll,
  1 ms after it computed the deadline, although the bit reads as set at the next poll.
\<close>

theorem reset_deadline_wraps:
  "clock (late_world [] 0 0xFFFFEC77) 0 + 5000 = 0xFFFFFFFF
   \<and> ENC28J60_reset dev0 (late_world [] 0 0xFFFFEC77) = None
   \<and> ENC28J60_setup timer_setup0 dev0 (late_world [] 0 0xFFFFEC77) = None
   \<and> clock (late_world [0, 0] 1 0xFFFFFF00) 1 = clock (late_world [0, 0] 1 0xFFFFFF00) 0 + 1
   \<and> osc_ready (late_world [0, 0] 1 0xFFFFFF00) 1
   \<and> ENC28J60_reset dev0 (late_world [0, 0] 1 0xFFFFFF00) =
       Some (1, dev0,
             hal_after (reset_pulse dev0 @ xfer dev0 [0x1d, 0]) 2 2 (late_world [0, 0] 1 0xFFFFFF00))"
proof -
  let ?w = "late_world [] 0 0xFFFFEC77"
  let ?v = "late_world [0, 0] 1 0xFFFFFF00"
  have T: "clock ?w 0 + 5000 = 0xFFFFFFFF" "clock ?w (tick_count ?w) + 5000 = - 1"
    by (simp_all add: late_world_sel)
  have stuck: "\<forall>n. miso (hal_after (reset_pulse dev0) 0 1 ?w) n AND ESTAT_CLKRDY = 0"
    by (simp add: late_world_sel)
  have a: "ENC28J60_reset dev0 ?w = None"
    unfolding reset_unfold T reset_wait_ost_hangs [OF stuck] by simp
  have d0: "dev0\<lparr>bank := ERXTX_BANK, receivedPackets := 0, sentPackets := 0, watchDogTimer := ()\<rparr> = dev0"
    by (simp add: dev0_def ERXTX_BANK_def)
  have "setup_retry dev0 ?w = None"
    by (subst setup_retry.simps) (simp add: a)
  then have s: "ENC28J60_setup timer_setup0 dev0 ?w = None"
    by (simp add: ENC28J60_setup_def timer_setup0_def Let_def d0)
  have c: "clock ?v 1 = clock ?v 0 + 1"
    by (simp add: late_world_sel)
  have p: "\<forall>j\<le>0. \<not> osc_ready ?v j" "\<forall>j<0. \<not> deadline_passed ?v j" "deadline_passed ?v 0"
    "osc_ready ?v 1"
    by (simp_all add: osc_ready_def deadline_passed_def rx_def late_world_def ESTAT_CLKRDY_def)
  have b: "ENC28J60_reset dev0 ?v =
       Some (1, dev0, hal_after (reset_pulse dev0 @ xfer dev0 [0x1d, 0]) 2 2 ?v)"
    using reset_timeout_aux [OF p(1,2,3), of dev0] by simp
  from T(1) a s c p(4) b show ?thesis by simp
qed

subsection \<open>Watchdog\<close>

text \<open>
  Claim C1. At a tick at which the watchdog interval has elapsed, \<^verbatim>\<open>ENC28J60_tick\<close>
  runs \<^verbatim>\<open>_ENC28J60_reset\<close> exactly when the received-packet counter is at most the
  sent-packet counter (equal nonzero counters included), and both counters are 0 after
  the tick whether or not the reset ran. The reset shows in the world as the reset pulse;
  without it the world is as the timer left it. The tick returns whenever the reset's
  wait for the oscillator ends. With 5 sent and 0 received the reset runs, with 5 sent
  and 6 received it does not.
\<close>

theorem tick_watchdog:
  assumes "periodicTimer_hasElapsed (watchDogTimer e) h = (True, tm, h1)"
  shows "ENC28J60_tick periodicTimer_hasElapsed e h =
           (if sint (receivedPackets e) \<le> sint (sentPackets e)
            then (case ENC28J60_reset (e\<lparr>watchDogTimer := tm\<rparr>) h1 of
                    None \<Rightarrow> None
                  | Some (r, e2, h2) \<Rightarrow> Some (e2\<lparr>receivedPackets := 0, sentPackets := 0\<rparr>, h2))
            else Some (e\<lparr>watchDogTimer := tm, receivedPackets := 0, sentPackets := 0\<rparr>, h1))
     \<and> (\<forall>e' h'. ENC28J60_tick periodicTimer_hasElapsed e h = Some (e', h') \<longrightarrow>
            receivedPackets e' = 0 \<and> sentPackets e' = 0
            \<and> ((\<exists>evs. trace h' = trace h1 @ reset_pulse e @ evs)
                 \<longleftrightarrow> sint (receivedPackets e) \<le> sint (sentPackets e)))
     \<and> ((\<exists>k. (\<forall>j<k. \<not> osc_ready h1 j \<and> \<not> deadline_passed h1 j)
               \<and> (osc_ready h1 k \<or> deadline_passed h1 k))
          \<longrightarrow> (\<exists>e' h'. ENC28J60_tick periodicTimer_hasElapsed e h = Some (e', h')))"
proof (intro conjI allI impI)
  show a: "ENC28J60_tick periodicTimer_hasElapsed e h =
           (if sint (receivedPackets e) \<le> sint (sentPackets e)
            then (case ENC28J60_reset (e\<lparr>watchDogTimer := tm\<rparr>) h1 of
                    None \<Rightarrow> None
                  | Some (r, e2, h2) \<Rightarrow> Some (e2\<lparr>receivedPackets := 0, sentPackets := 0\<rparr>, h2))
            else Some (e\<lparr>watchDogTimer := tm, receivedPackets := 0, sentPackets := 0\<rparr>, h1))"
    using assms by (rule tick_elapsed_aux [of periodicTimer_hasElapsed e h tm h1])
  {
    fix e' h'
    assume t: "ENC28J60_tick periodicTimer_hasElapsed e h = Some (e', h')"
    show "receivedPackets e' = 0"
      using t unfolding a by (auto split: if_splits option.splits)
    show "sentPackets e' = 0"
      using t unfolding a by (auto split: if_splits option.splits)
    show "(\<exists>evs. trace h' = trace h1 @ reset_pulse e @ evs)
            \<longleftrightarrow> sint (receivedPackets e) \<le> sint (sentPackets e)"
    proof (cases "sint (receivedPackets e) \<le> sint (sentPackets e)")
      case True
      with t obtain r e2 where "ENC28J60_reset (e\<lparr>watchDogTimer := tm\<rparr>) h1 = Some (r, e2, h')"
        unfolding a by (auto split: option.splits)
      from reset_extends [OF this] have "\<exists>evs. trace h' = trace h1 @ reset_pulse e @ evs"
        by auto
      with True show ?thesis by simp
    next
      case False
      with t have "h' = h1" unfolding a by simp
      with False show ?thesis by simp
    qed
  }
  assume "\<exists>k. (\<forall>j<k. \<not> osc_ready h1 j \<and> \<not> deadline_passed h1 j)
               \<and> (osc_ready h1 k \<or> deadline_passed h1 k)"
  then obtain k where "\<forall>j<k. \<not> osc_ready h1 j \<and> \<not> deadline_passed h1 j"
    "osc_ready h1 k \<or> deadline_passed h1 k" by blast
  from reset_returns [OF this, of "e\<lparr>watchDogTimer := tm\<rparr>"]
  show "\<exists>e' h'. ENC28J60_tick periodicTimer_hasElapsed e h = Some (e', h')"
    unfolding a by auto
qed

theorem tick_watchdog_witness:
  "always_elapsed (watchDogTimer (dev0\<lparr>sentPackets := 5\<rparr>)) (world [0, 1] 10) = (True, (), world [0, 1] 10)
   \<and> (\<exists>e' h' evs.
         ENC28J60_tick always_elapsed (dev0\<lparr>sentPackets := 5\<rparr>) (world [0, 1] 10) = Some (e', h')
         \<and> receivedPackets e' = 0 \<and> sentPackets e' = 0
         \<and> trace h' = reset_pulse dev0 @ evs)
   \<and> ENC28J60_tick always_elapsed (dev0\<lparr>sentPackets := 5, receivedPackets := 6\<rparr>) (world [0, 1] 10)
       = Some (dev0, world [0, 1] 10)"
proof -
  let ?w = "world [0, 1] 10"
  let ?a = "dev0\<lparr>sentPackets := 5\<rparr>"
  let ?b = "dev0\<lparr>sentPackets := 5, receivedPackets := 6\<rparr>"
  have ela: "always_elapsed (watchDogTimer ?a) ?w = (True, (), ?w)"
    by (simp add: always_elapsed_def)
  have elb: "always_elapsed (watchDogTimer ?b) ?w = (True, (), ?w)"
    by (simp add: always_elapsed_def)
  have rdy: "\<exists>k. (\<forall>j<k. \<not> osc_ready ?w j \<and> \<not> deadline_passed ?w j)
               \<and> (osc_ready ?w k \<or> deadline_passed ?w k)"
    by (rule exI [of _ 0]) (simp add: ready_world)
  have le: "sint (receivedPackets ?a) \<le> sint (sentPackets ?a)"
    by (simp add: dev0_def)
  have gt: "\<not> sint (receivedPackets ?b) \<le> sint (sentPackets ?b)"
    by simp
  note A = tick_watchdog [of always_elapsed ?a ?w "()" ?w, OF ela]
  note B = tick_watchdog [of always_elapsed ?b ?w "()" ?w, OF elb]
  from A rdy obtain e' h' where t: "ENC28J60_tick always_elapsed ?a ?w = Some (e', h')"
    by blast
  with A le have "receivedPackets e' = 0" "sentPackets e' = 0"
    "\<exists>evs. trace h' = trace ?w @ reset_pulse ?a @ evs"
    by blast+
  with t have a: "\<exists>e' h' evs.
         ENC28J60_tick always_elapsed ?a ?w = Some (e', h')
         \<and> receivedPackets e' = 0 \<and> sentPackets e' = 0
         \<and> trace h' = reset_pulse dev0 @ evs"
    by (auto simp: ready_world reset_pulse_def)
  have "ENC28J60_tick always_elapsed ?b ?w
          = Some (?b\<lparr>watchDogTimer := (), receivedPackets := 0, sentPackets := 0\<rparr>, ?w)"
    using B gt by simp
  then have b: "ENC28J60_tick always_elapsed ?b ?w = Some (dev0, ?w)"
    by (simp add: dev0_def)
  from ela a b show ?thesis by blast
qed

text \<open>
  Claim C10. At a tick at which the interval has elapsed and both counters are 0 (no
  traffic at all), the reset still runs, since 0 \<open>\<le>\<close> 0: an idle link is reset at every
  watchdog interval.
\<close>

theorem tick_idle_link_reset:
  assumes "periodicTimer_hasElapsed (watchDogTimer e) h = (True, tm, h1)"
    and "receivedPackets e = 0" and "sentPackets e = 0"
  shows "ENC28J60_tick periodicTimer_hasElapsed e h =
           (case ENC28J60_reset (e\<lparr>watchDogTimer := tm\<rparr>) h1 of
              None \<Rightarrow> None
            | Some (r, e2, h2) \<Rightarrow> Some (e2\<lparr>receivedPackets := 0, sentPackets := 0\<rparr>, h2))
     \<and> (\<forall>e' h'. ENC28J60_tick periodicTimer_hasElapsed e h = Some (e', h') \<longrightarrow>
            (\<exists>evs. trace h' = trace h1 @ reset_pulse e @ evs))
     \<and> ((\<exists>k. (\<forall>j<k. \<not> osc_ready h1 j \<and> \<not> deadline_passed h1 j)
               \<and> (osc_ready h1 k \<or> deadline_passed h1 k))
          \<longrightarrow> (\<exists>e' h'. ENC28J60_tick periodicTimer_hasElapsed e h = Some (e', h')))"
proof (intro conjI allI impI)
  show a: "ENC28J60_tick periodicTimer_hasElapsed e h =
           (case ENC28J60_reset (e\<lparr>watchDogTimer := tm\<rparr>) h1 of
              None \<Rightarrow> None
            | Some (r, e2, h2) \<Rightarrow> Some (e2\<lparr>receivedPackets := 0, sentPackets := 0\<rparr>, h2))"
    using assms(2,3) tick_elapsed_aux [of periodicTimer_hasElapsed e h tm h1, OF assms(1)] by simp
  {
    fix e' h'
    assume "ENC28J60_tick periodicTimer_hasElapsed e h = Some (e', h')"
    then obtain r e2 where "ENC28J60_reset (e\<lparr>watchDogTimer := tm\<rparr>) h1 = Some (r, e2, h')"
      unfolding a by (auto split: option.splits)
    from reset_extends [OF this] show "\<exists>evs. trace h' = trace h1 @ reset_pulse e @ evs"
      by auto
  }
  assume "\<exists>k. (\<forall>j<k. \<not> osc_ready h1 j \<and> \<not> deadline_passed h1 j)
               \<and> (osc_ready h1 k \<or> deadline_passed h1 k)"
  then obtain k where "\<forall>j<k. \<not> osc_ready h1 j \<and> \<not> deadline_passed h1 j"
    "osc_ready h1 k \<or> deadline_passed h1 k" by blast
  from reset_returns [OF this, of "e\<lparr>watchDogTimer := tm\<rparr>"]
  show "\<exists>e' h'. ENC28J60_tick periodicTimer_hasElapsed e h = Some (e', h')"
    unfolding a by auto
qed

theorem tick_idle_link_reset_witness:
  "always_elapsed (watchDogTimer dev0) (world [0, 1] 10) = (True, (), world [0, 1] 10)
   \<and> receivedPackets dev0 = 0 \<and> sentPackets dev0 = 0
   \<and> (\<exists>e' h' evs. ENC28J60_tick always_elapsed dev0 (world [0, 1] 10) = Some (e', h')
         \<and> trace h' = reset_pulse dev0 @ evs)"
proof -
  let ?w = "world [0, 1] 10"
  have el: "always_elapsed (watchDogTimer dev0) ?w = (True, (), ?w)"
    by (simp add: always_elapsed_def)
  have z: "receivedPackets dev0 = 0" "sentPackets dev0 = 0"
    by (simp_all add: dev0_def)
  have rdy: "\<exists>k. (\<forall>j<k. \<not> osc_ready ?w j \<and> \<not> deadline_passed ?w j)
               \<and> (osc_ready ?w k \<or> deadline_passed ?w k)"
    by (rule exI [of _ 0]) (simp add: ready_world)
  note A = tick_idle_link_reset [of always_elapsed dev0 ?w "()" ?w, OF el z]
  from A rdy obtain e' h' where t: "ENC28J60_tick always_elapsed dev0 ?w = Some (e', h')"
    by blast
  with A have "\<exists>evs. trace h' = trace ?w @ reset_pulse dev0 @ evs" by blast
  with t have "\<exists>e' h' evs. ENC28J60_tick always_elapsed dev0 ?w = Some (e', h')
         \<and> trace h' = reset_pulse dev0 @ evs"
    by (auto simp: ready_world)
  with el z show ?thesis by blast
qed

end
